theory Spec2Isabelle
  imports Complex_Main "HOL-Library.Char_ord" "HOL-Library.List_Lexorder" "HOL-Library.AList"
    "HOL-Library.Multiset"
begin


section \<open>Data model (backend/src/models/Order.js)\<close>

text \<open>
  Statuses are strings in the source. One datatype carries the six values of the order-level
  enum; the item-level enum is the same without \<open>Paid\<close>. Numbers: quantities are
  integers (\<open>int\<close>), prices are exact rationals (\<open>rat\<close>) in place of IEEE doubles.
  Object ids and menu item ids are natural numbers; an order line built by a route as a plain
  object carries no \<open>_id\<close> until the document is saved, hence \<open>item_id\<close> is optional.
  Dates are natural numbers, and a route takes the value of \<open>new Date()\<close> as its
  argument \<open>now\<close>. Of an order, the fields that the modelled routes read or write are
  kept; the table, the restaurant, the authentication of a request and the events emitted on
  the socket are outside the model.
\<close>

datatype status = Pending | Preparing | Ready | Served | Paid | Cancelled

datatype change_type =
  Item_added | Item_removed | Quantity_increased | Quantity_decreased | Item_modified

datatype actor = Customer | Staff

text \<open>An addon is an object \<open>{name, price}\<close> (the price may be missing) or a bare name.\<close>

datatype addon = AddonObj string "rat option" | AddonStr string

record order_item =
  item_id :: "nat option"
  menuItemId :: nat
  name :: string
  price :: rat
  quantity :: int
  addons :: "addon list"
  specialInstructions :: string
  isNew :: bool
  isRemoved :: bool
  status :: status

record change_event =
  timestamp :: nat
  changeType :: change_type
  itemName :: string
  oldQuantity :: "int option"
  newQuantity :: "int option"
  changedBy :: actor
  details :: string

text \<open>A ticket item as the print route builds it. The route copies
  \<open>specialInstructions\<close> into the object, although the schema of a stored ticket item
  has no such field.\<close>

record kot_item =
  itemId :: nat
  kot_name :: string
  kot_quantity :: int
  kot_addons :: "addon list"
  kot_specialInstructions :: string

record kot =
  kotNumber :: nat
  kot_items :: "kot_item list"
  printedAt :: nat
  printedBy :: string

datatype payment_method = Upi | Card | Cash

text \<open>
  \<open>batchStatus\<close> is a JavaScript \<open>Map\<close>: an association list in insertion order,
  \<open>AList.update\<close> being \<open>Map.set\<close> and \<open>map_of\<close> being \<open>Map.get\<close>. The routes test
  \<open>!order.batchStatus\<close>, so the field is optional.
\<close>

record order =
  items :: "order_item list"
  totalPrice :: rat
  customerName :: string
  order_specialInstructions :: string
  order_status :: status
  paymentMethod :: "payment_method option"
  paymentCompletedAt :: "nat option"
  isUpdated :: bool
  updateCount :: nat
  originalItems :: "order_item list"
  updateHistory :: "change_event list"
  kots :: "kot list"
  batchStatus :: "(string \<times> status) list option"
  hasUnseenChanges :: bool

text \<open>A submitted item of a request body; a missing \<open>addons\<close> field reads as \<open>[]\<close>
  everywhere (\<open>item.addons || []\<close>), so the field is a plain list.\<close>

record req_item =
  req_menuItemId :: nat
  req_quantity :: int
  req_addons :: "addon list"
  req_specialInstructions :: string

record menu_item =
  mi_name :: string
  mi_price :: rat

text \<open>The responses with \<open>success: false\<close>, one constructor per early return.\<close>

datatype error =
    EmptyItems
  | OrderNotFound
  | TerminalState status
  | InvalidQuantity
  | MenuItemsMissing "nat list"
  | NoNewItems
  | NotServed status
  | NotPending status
  | ServerError

fun http_status :: "error \<Rightarrow> nat" where
  "http_status EmptyItems = 400"
| "http_status OrderNotFound = 404"
| "http_status (TerminalState s) = 400"
| "http_status InvalidQuantity = 400"
| "http_status (MenuItemsMissing ids) = 404"
| "http_status NoNewItems = 400"
| "http_status (NotServed s) = 400"
| "http_status (NotPending s) = 400"
| "http_status ServerError = 500"

section \<open>Rendering numbers in template strings\<close>

text \<open>\<open>`${n}`\<close> for an integer \<open>n\<close>: its decimal digits.\<close>

definition digit_char :: "nat \<Rightarrow> char" where
  "digit_char d = ''0123456789'' ! d"

function render_nat :: "nat \<Rightarrow> string" where
  "render_nat n =
     (if n < 10 then [digit_char n] else render_nat (n div 10) @ [digit_char (n mod 10)])"
  by pat_completeness auto
termination
  by (relation "measure id") auto

definition render_int :: "int \<Rightarrow> string" where
  "render_int i = (if 0 \<le> i then render_nat (nat i) else CHR ''-'' # render_nat (nat (- i)))"

section \<open>Pricing (calculateAddonPrice and the total loops of routes/orders.js)\<close>

fun addon_price :: "addon \<Rightarrow> rat" where
  "addon_price (AddonObj n p) = (case p of None \<Rightarrow> 0 | Some v \<Rightarrow> v)"
| "addon_price (AddonStr s) = 0"

definition calculateAddonPrice :: "addon list \<Rightarrow> int \<Rightarrow> rat" where
  "calculateAddonPrice ads qty =
     (if ads = [] then 0
      else foldl (\<lambda>sum addon. sum + addon_price addon) 0 ads * of_int qty)"

text \<open>\<open>Math.round(totalPrice * 100) / 100\<close>: \<open>Math.round\<close> rounds half towards
  \<open>+\<infinity>\<close>.\<close>

definition round2 :: "rat \<Rightarrow> rat" where
  "round2 x = of_int \<lfloor>x * 100 + 1 / 2\<rfloor> / 100"

definition item_total :: "order_item \<Rightarrow> rat" where
  "item_total item = price item * of_int (quantity item) + calculateAddonPrice (addons item) (quantity item)"

definition items_total :: "order_item list \<Rightarrow> rat" where
  "items_total its = foldl (\<lambda>totalPrice item. totalPrice + item_total item) 0 its"

section \<open>Identity keys\<close>

text \<open>
  The key of a line or of a submitted item is
  \<open>`${item.menuItemId}-${JSON.stringify((item.addons || []).sort())}`\<close>.
  \<open>Array.prototype.sort\<close> without comparator is a stable sort on the string image of
  the elements: an object reads \<open>[object Object]\<close>, a string reads as itself. The key is
  modelled by the pair of the menu item id and the sorted addon list, equality of the JSON
  texts being equality of the lists. The sort is in place: after its key has been computed
  the item holds the sorted addon list.
\<close>

fun addon_sort_string :: "addon \<Rightarrow> string" where
  "addon_sort_string (AddonObj n p) = ''[object Object]''"
| "addon_sort_string (AddonStr s) = s"

definition sort_addons :: "addon list \<Rightarrow> addon list" where
  "sort_addons = sort_key addon_sort_string"

type_synonym item_key = "nat \<times> addon list"

definition line_key :: "order_item \<Rightarrow> item_key" where
  "line_key item = (menuItemId item, sort_addons (addons item))"

definition sort_line :: "order_item \<Rightarrow> order_item" where
  "sort_line item = item\<lparr>addons := sort_addons (addons item)\<rparr>"

definition req_key :: "req_item \<Rightarrow> item_key" where
  "req_key item = (req_menuItemId item, sort_addons (req_addons item))"

definition sort_req :: "req_item \<Rightarrow> req_item" where
  "sort_req item = item\<lparr>req_addons := sort_addons (req_addons item)\<rparr>"

section \<open>Staff reconciliation (PATCH /:orderId/update, isStaffEdit)\<close>

text \<open>
  The route has checked that every submitted menu item id is in \<open>menuItemMap\<close> before it
  reconciles; the model pairs each submitted item with the menu item found for it, so that
  \<open>menuItemMap[incoming.data.menuItemId.toString()]\<close> is the second component.
\<close>

type_synonym incoming = "int \<times> req_item \<times> menu_item"

fun group_incoming ::
  "(req_item \<times> menu_item) list \<Rightarrow> (item_key \<times> incoming) list \<Rightarrow> (item_key \<times> incoming) list" where
  "group_incoming [] incomingMap = incomingMap"
| "group_incoming ((item, menuItem) # rest) incomingMap =
     (let key = req_key item
      in group_incoming rest
           (case map_of incomingMap key of
              Some (qty, data) \<Rightarrow> AList.update key (qty + req_quantity item, data) incomingMap
            | None \<Rightarrow> AList.update key (req_quantity item, sort_req item, menuItem) incomingMap))"

fun group_existing ::
  "order_item list \<Rightarrow> (item_key \<times> order_item list) list \<Rightarrow> (item_key \<times> order_item list) list" where
  "group_existing [] existingMap = existingMap"
| "group_existing (item # rest) existingMap =
     (let key = line_key item
      in group_existing rest
           (AList.update key
              ((case map_of existingMap key of None \<Rightarrow> [] | Some l \<Rightarrow> l) @ [sort_line item])
              existingMap))"

fun statusPriority :: "status \<Rightarrow> nat" where
  "statusPriority Pending = 0"
| "statusPriority Preparing = 1"
| "statusPriority Ready = 2"
| "statusPriority Served = 3"
| "statusPriority Cancelled = 4"
| "statusPriority Paid = 0"

text \<open>The loop \<open>for (const item of sortedExisting)\<close> of case C.\<close>

fun remove_from :: "int \<Rightarrow> order_item list \<Rightarrow> order_item list" where
  "remove_from amountToRemove [] = []"
| "remove_from amountToRemove (item # rest) =
     (if amountToRemove \<le> 0 then item # remove_from amountToRemove rest
      else if quantity item > amountToRemove
      then item\<lparr>quantity := quantity item - amountToRemove\<rparr> # remove_from 0 rest
      else item\<lparr>isRemoved := True, isNew := False\<rparr>
             # remove_from (amountToRemove - quantity item) rest)"

definition new_pending_item :: "menu_item \<Rightarrow> req_item \<Rightarrow> int \<Rightarrow> order_item" where
  "new_pending_item menuItem data diff =
     \<lparr>item_id = None, menuItemId = req_menuItemId data, name = mi_name menuItem,
      price = mi_price menuItem, quantity = diff, addons = req_addons data,
      specialInstructions = req_specialInstructions data, isNew = True, isRemoved = False,
      status = Pending\<rparr>"

definition added_event :: "nat \<Rightarrow> actor \<Rightarrow> string \<Rightarrow> int \<Rightarrow> change_event" where
  "added_event now by nm newQ =
     \<lparr>timestamp = now, changeType = Item_added, itemName = nm, oldQuantity = None,
      newQuantity = Some newQ, changedBy = by,
      details = ''Added '' @ render_int newQ @ ''x '' @ nm\<rparr>"

definition staff_increased_event :: "nat \<Rightarrow> string \<Rightarrow> int \<Rightarrow> int \<Rightarrow> change_event" where
  "staff_increased_event now nm oldQ newQ =
     \<lparr>timestamp = now, changeType = Quantity_increased, itemName = nm, oldQuantity = Some oldQ,
      newQuantity = Some newQ, changedBy = Staff,
      details = nm @ '': increased from '' @ render_int oldQ @ '' to '' @ render_int newQ\<rparr>"

definition staff_decreased_event :: "nat \<Rightarrow> string \<Rightarrow> int \<Rightarrow> int \<Rightarrow> change_event" where
  "staff_decreased_event now nm oldQ newQ =
     \<lparr>timestamp = now, changeType = Quantity_decreased, itemName = nm, oldQuantity = Some oldQ,
      newQuantity = Some newQ, changedBy = Staff,
      details = nm @ '': decreased from '' @ render_int oldQ @ '' to '' @ render_int newQ\<rparr>"

text \<open>The body of \<open>incomingMap.forEach\<close>: the lines and the events it pushes for one key.\<close>

definition staff_reconcile_key ::
  "nat \<Rightarrow> order_item list \<Rightarrow> incoming \<Rightarrow> order_item list \<times> change_event list" where
  "staff_reconcile_key now existingList inc =
     (case inc of (desiredQty, data, menuItem) \<Rightarrow>
        let existingTotalQty = foldl (\<lambda>sum i. sum + quantity i) 0 existingList
        in if desiredQty = existingTotalQty then (existingList, [])
           else if desiredQty > existingTotalQty
           then (existingList @ [new_pending_item menuItem data (desiredQty - existingTotalQty)],
                 [if existingTotalQty = 0 then added_event now Staff (mi_name menuItem) desiredQty
                  else staff_increased_event now (mi_name menuItem) existingTotalQty desiredQty])
           else (remove_from (existingTotalQty - desiredQty) (sort_key (\<lambda>i. statusPriority (status i)) existingList),
                 [staff_decreased_event now (mi_name menuItem) existingTotalQty desiredQty]))"

definition existing_for :: "(item_key \<times> order_item list) list \<Rightarrow> item_key \<Rightarrow> order_item list" where
  "existing_for existingMap key = (case map_of existingMap key of None \<Rightarrow> [] | Some l \<Rightarrow> l)"

text \<open>The staff branch: the new item list, the change log and the unrounded total.\<close>

definition staff_reconcile ::
  "nat \<Rightarrow> order_item list \<Rightarrow> (req_item \<times> menu_item) list
     \<Rightarrow> order_item list \<times> change_event list \<times> rat" where
  "staff_reconcile now oldItems its =
     (let incomingMap = group_incoming its [];
          existingMap = group_existing oldItems [];
          results = map (\<lambda>(key, inc). staff_reconcile_key now (existing_for existingMap key) inc)
                      incomingMap;
          newOrderItems = concat (map fst results);
          currentUpdateHistory = concat (map snd results)
      in (newOrderItems, currentUpdateHistory, items_total newOrderItems))"

section \<open>Customer reconciliation (PATCH /:orderId/update, no valid token)\<close>

text \<open>\<open>existingItemsMap\<close>: \<open>Map.set\<close> overwrites, so the last line of a key stays.\<close>

fun index_existing ::
  "order_item list \<Rightarrow> (item_key \<times> order_item) list \<Rightarrow> (item_key \<times> order_item) list" where
  "index_existing [] existingItemsMap = existingItemsMap"
| "index_existing (item # rest) existingItemsMap =
     index_existing rest (AList.update (line_key item) (sort_line item) existingItemsMap)"

text \<open>The object stored in \<open>consolidatedMap\<close>. Without an existing line it has neither
  \<open>_id\<close> nor \<open>status\<close>; the schema default of \<open>status\<close> is \<open>pending\<close>.\<close>

definition consolidated_item :: "menu_item \<Rightarrow> req_item \<Rightarrow> order_item option \<Rightarrow> order_item" where
  "consolidated_item menuItem item existingItem =
     \<lparr>item_id = (case existingItem of None \<Rightarrow> None | Some e \<Rightarrow> item_id e),
      menuItemId = req_menuItemId item, name = mi_name menuItem, price = mi_price menuItem,
      quantity = req_quantity item, addons = req_addons item,
      specialInstructions = req_specialInstructions item, isNew = False, isRemoved = False,
      status = (case existingItem of None \<Rightarrow> Pending | Some e \<Rightarrow> status e)\<rparr>"

fun consolidate ::
  "(req_item \<times> menu_item) list \<Rightarrow> (item_key \<times> order_item) list
     \<Rightarrow> (item_key \<times> order_item) list \<Rightarrow> (item_key \<times> order_item) list" where
  "consolidate [] existingItemsMap consolidatedMap = consolidatedMap"
| "consolidate ((item, menuItem) # rest) existingItemsMap consolidatedMap =
     (let key = req_key item
      in consolidate rest existingItemsMap
           (case map_of consolidatedMap key of
              Some existing \<Rightarrow>
                AList.update key (existing\<lparr>quantity := quantity existing + req_quantity item\<rparr>)
                  consolidatedMap
            | None \<Rightarrow>
                AList.update key
                  (consolidated_item menuItem (sort_req item) (map_of existingItemsMap key))
                  consolidatedMap))"

definition customer_increased_event :: "nat \<Rightarrow> string \<Rightarrow> int \<Rightarrow> int \<Rightarrow> change_event" where
  "customer_increased_event now nm oldQ newQ =
     \<lparr>timestamp = now, changeType = Quantity_increased, itemName = nm, oldQuantity = Some oldQ,
      newQuantity = Some newQ, changedBy = Customer,
      details = ''Increased from '' @ render_int oldQ @ '' to '' @ render_int newQ\<rparr>"

definition customer_decreased_event :: "nat \<Rightarrow> string \<Rightarrow> int \<Rightarrow> int \<Rightarrow> change_event" where
  "customer_decreased_event now nm oldQ newQ =
     \<lparr>timestamp = now, changeType = Quantity_decreased, itemName = nm, oldQuantity = Some oldQ,
      newQuantity = Some newQ, changedBy = Customer,
      details = ''Decreased from '' @ render_int oldQ @ '' to '' @ render_int newQ\<rparr>"

definition removed_event :: "nat \<Rightarrow> string \<Rightarrow> int \<Rightarrow> change_event" where
  "removed_event now nm oldQ =
     \<lparr>timestamp = now, changeType = Item_removed, itemName = nm, oldQuantity = Some oldQ,
      newQuantity = None, changedBy = Customer,
      details = ''Removed '' @ render_int oldQ @ ''x '' @ nm\<rparr>"

text \<open>The body of the first \<open>newOrderItems.forEach\<close> after the total: \<open>oldItems.find\<close>
  returns the first old line of the key.\<close>

definition customer_change ::
  "nat \<Rightarrow> order_item list \<Rightarrow> order_item \<Rightarrow> order_item \<times> change_event list" where
  "customer_change now oldItems newItem =
     (case find (\<lambda>old. line_key old = line_key newItem) oldItems of
        None \<Rightarrow> (newItem\<lparr>isNew := True\<rparr>,
                 [added_event now Customer (name newItem) (quantity newItem)])
      | Some oldItem \<Rightarrow>
          if quantity newItem > quantity oldItem
          then (newItem\<lparr>isNew := True\<rparr>,
                [customer_increased_event now (name newItem) (quantity oldItem) (quantity newItem)])
          else if quantity newItem < quantity oldItem
          then (newItem,
                [customer_decreased_event now (name newItem) (quantity oldItem) (quantity newItem)])
          else (newItem, []))"

definition removed_copy :: "order_item \<Rightarrow> order_item" where
  "removed_copy oldItem =
     \<lparr>item_id = None, menuItemId = menuItemId oldItem, name = name oldItem,
      price = price oldItem, quantity = quantity oldItem, addons = addons oldItem,
      specialInstructions = specialInstructions oldItem, isNew = False, isRemoved = True,
      status = Pending\<rparr>"

text \<open>\<open>oldItems.forEach\<close>: \<open>newOrderItems.find\<close> sees the lines pushed by earlier
  iterations of this loop.\<close>

fun push_removed ::
  "nat \<Rightarrow> order_item list \<Rightarrow> order_item list \<times> change_event list
     \<Rightarrow> order_item list \<times> change_event list" where
  "push_removed now [] acc = acc"
| "push_removed now (oldItem # rest) (newOrderItems, hist) =
     (case find (\<lambda>item. line_key item = line_key oldItem) newOrderItems of
        Some newItem \<Rightarrow> push_removed now rest (newOrderItems, hist)
      | None \<Rightarrow>
          push_removed now rest
            (newOrderItems @ [removed_copy oldItem],
             hist @ [removed_event now (name oldItem) (quantity oldItem)]))"

definition customer_reconcile ::
  "nat \<Rightarrow> order_item list \<Rightarrow> (req_item \<times> menu_item) list
     \<Rightarrow> order_item list \<times> change_event list \<times> rat" where
  "customer_reconcile now oldItems its =
     (let existingItemsMap = index_existing oldItems [];
          sortedOld = map sort_line oldItems;
          consolidated = map snd (consolidate its existingItemsMap []);
          total = items_total consolidated;
          changes = map (customer_change now sortedOld) consolidated;
          (newOrderItems, hist) =
             push_removed now sortedOld (map fst changes, concat (map snd changes))
      in (newOrderItems, hist, total))"

section \<open>The update route\<close>

definition is_space :: "char \<Rightarrow> bool" where
  "is_space c = (c \<in> set [CHR '' '', CHR 0x09, CHR 0x0A, CHR 0x0B, CHR 0x0C, CHR 0x0D])"

definition trim :: "string \<Rightarrow> string" where
  "trim s = rev (dropWhile is_space (rev (dropWhile is_space s)))"

text \<open>\<open>value?.trim() || fallback\<close>\<close>

definition trim_or :: "string option \<Rightarrow> string \<Rightarrow> string" where
  "trim_or v fallback =
     (case v of None \<Rightarrow> fallback | Some s \<Rightarrow> if trim s = [] then fallback else trim s)"

text \<open>Saving gives every line without \<open>_id\<close> a new ObjectId; \<open>fresh\<close> is the first id
  not in use.\<close>

fun assign_ids :: "nat \<Rightarrow> order_item list \<Rightarrow> order_item list" where
  "assign_ids fresh [] = []"
| "assign_ids fresh (item # rest) =
     (case item_id item of
        Some i \<Rightarrow> item # assign_ids fresh rest
      | None \<Rightarrow> item\<lparr>item_id := Some fresh\<rparr> # assign_ids (Suc fresh) rest)"

definition missing_items :: "(nat \<rightharpoonup> menu_item) \<Rightarrow> req_item list \<Rightarrow> nat list" where
  "missing_items menuItemMap its =
     filter (\<lambda>itemId. menuItemMap itemId = None) (map req_menuItemId its)"

fun resolve_items :: "(nat \<rightharpoonup> menu_item) \<Rightarrow> req_item list \<Rightarrow> (req_item \<times> menu_item) list" where
  "resolve_items menuItemMap [] = []"
| "resolve_items menuItemMap (item # rest) =
     (case menuItemMap (req_menuItemId item) of
        None \<Rightarrow> resolve_items menuItemMap rest
      | Some menuItem \<Rightarrow> (item, menuItem) # resolve_items menuItemMap rest)"

definition reconcile ::
  "bool \<Rightarrow> nat \<Rightarrow> order_item list \<Rightarrow> (req_item \<times> menu_item) list
     \<Rightarrow> order_item list \<times> change_event list \<times> rat" where
  "reconcile isStaffEdit now oldItems its =
     (if isStaffEdit then staff_reconcile now oldItems its else customer_reconcile now oldItems its)"

definition hasNewWork :: "change_event list \<Rightarrow> bool" where
  "hasNewWork currentUpdateHistory =
     list_ex (\<lambda>h. changeType h \<in> set [Item_added, Quantity_increased]) currentUpdateHistory"

text \<open>The block guarded by \<open>currentUpdateHistory.length > 0\<close>; \<open>order\<close> already has the
  incremented \<open>updateCount\<close>.\<close>

definition apply_history :: "change_event list \<Rightarrow> order \<Rightarrow> order" where
  "apply_history currentUpdateHistory order =
     (if currentUpdateHistory = [] then order
      else
        let order1 = order\<lparr>updateHistory := updateHistory order @ currentUpdateHistory,
                           hasUnseenChanges := True\<rparr>;
            order2 =
              (if hasNewWork currentUpdateHistory
                  \<and> order_status order1 \<in> set [Served, Ready, Preparing]
               then order1\<lparr>order_status := Pending\<rparr> else order1);
            bs0 = (case batchStatus order2 of None \<Rightarrow> [] | Some m \<Rightarrow> m);
            bs1 = (if updateCount order2 = 0
                   then AList.update ''original'' (order_status order2) bs0 else bs0);
            bs2 = AList.update (''update-'' @ render_nat (updateCount order2))
                    (order_status order2) bs1
        in order2\<lparr>batchStatus := Some bs2\<rparr>)"

definition snapshot_item :: "order_item \<Rightarrow> order_item" where
  "snapshot_item item = item\<lparr>isNew := False, isRemoved := False\<rparr>"

text \<open>The route from the terminal-state guard to \<open>order.save()\<close>, on the order found.
  The checks of the id formats are vacuous on natural numbers. The validators that the schema
  runs on save (quantity at least 1, price at least 0.01, at least one item) are not
  modelled.\<close>

definition update_order ::
  "nat \<Rightarrow> nat \<Rightarrow> bool \<Rightarrow> (nat \<rightharpoonup> menu_item) \<Rightarrow> req_item list \<Rightarrow> string option
     \<Rightarrow> string option \<Rightarrow> order \<Rightarrow> error + order" where
  "update_order now fresh isStaffEdit menuItemMap its newName newInstructions order =
     (if order_status order \<in> set [Paid, Cancelled] then Inl (TerminalState (order_status order))
      else if list_ex (\<lambda>item. req_quantity item < 1) its then Inl InvalidQuantity
      else if missing_items menuItemMap its \<noteq> [] then Inl (MenuItemsMissing (missing_items menuItemMap its))
      else
        let order0 = (if \<not> isUpdated order
                      then order\<lparr>originalItems := map snapshot_item (items order)\<rparr> else order);
            oldItems = filter (\<lambda>item. \<not> isRemoved item) (items order0);
            (newOrderItems, currentUpdateHistory, total) =
               reconcile isStaffEdit now oldItems (resolve_items menuItemMap its);
            order1 = order0\<lparr>items := newOrderItems, totalPrice := round2 total,
                            customerName := trim_or newName (customerName order0),
                            order_specialInstructions :=
                              trim_or newInstructions (order_specialInstructions order0),
                            isUpdated := True, updateCount := updateCount order0 + 1\<rparr>;
            order2 = apply_history currentUpdateHistory order1
        in Inr (order2\<lparr>items := assign_ids fresh (items order2)\<rparr>))"

text \<open>The document store: \<open>Order.findById\<close> reads it, \<open>order.save()\<close> writes it.\<close>

type_synonym store = "nat \<rightharpoonup> order"

definition updateOrder ::
  "nat \<Rightarrow> nat \<Rightarrow> bool \<Rightarrow> (nat \<rightharpoonup> menu_item) \<Rightarrow> req_item list \<Rightarrow> string option
     \<Rightarrow> string option \<Rightarrow> nat \<Rightarrow> store \<Rightarrow> (error + order) \<times> store" where
  "updateOrder now fresh isStaffEdit menuItemMap its newName newInstructions orderId db =
     (if its = [] then (Inl EmptyItems, db)
      else case db orderId of
             None \<Rightarrow> (Inl OrderNotFound, db)
           | Some order \<Rightarrow>
               (case update_order now fresh isStaffEdit menuItemMap its newName newInstructions order of
                  Inl e \<Rightarrow> (Inl e, db)
                | Inr order' \<Rightarrow> (Inr order', db(orderId \<mapsto> order'))))"

section \<open>Ticket generation (POST /:orderId/print-kot)\<close>

text \<open>\<open>printedQtyByItemId\<close>: the \<open>Map\<close> filled by the two nested \<open>forEach\<close> over the
  tickets and their items.\<close>

definition printedQtyByItemId :: "kot list \<Rightarrow> (nat \<times> int) list" where
  "printedQtyByItemId ks =
     foldl (\<lambda>m kotItem.
              AList.update (itemId kotItem)
                ((case map_of m (itemId kotItem) of None \<Rightarrow> 0 | Some qty \<Rightarrow> qty)
                   + kot_quantity kotItem) m)
       [] (concat (map kot_items ks))"

definition printed_item :: "nat \<Rightarrow> order_item \<Rightarrow> int \<Rightarrow> kot_item" where
  "printed_item i item remainingQty =
     \<lparr>itemId = i, kot_name = name item, kot_quantity = remainingQty, kot_addons = addons item,
      kot_specialInstructions = specialInstructions item\<rparr>"

text \<open>\<open>order.items.forEach\<close>; \<open>item._id.toString()\<close> throws on a line without
  \<open>_id\<close>, which the route answers with status 500.\<close>

fun itemsToPrint :: "(nat \<times> int) list \<Rightarrow> order_item list \<Rightarrow> error + kot_item list" where
  "itemsToPrint printed [] = Inr []"
| "itemsToPrint printed (item # rest) =
     (if isRemoved item then itemsToPrint printed rest
      else case item_id item of
             None \<Rightarrow> Inl ServerError
           | Some i \<Rightarrow>
               (let printedQty = (case map_of printed i of None \<Rightarrow> 0 | Some qty \<Rightarrow> qty);
                    remainingQty = quantity item - printedQty
                in case itemsToPrint printed rest of
                     Inl e \<Rightarrow> Inl e
                   | Inr others \<Rightarrow>
                       Inr (if remainingQty > 0 then printed_item i item remainingQty # others
                            else others)))"

definition print_kot :: "nat \<Rightarrow> order \<Rightarrow> error + kot \<times> order" where
  "print_kot now order =
     (case itemsToPrint (printedQtyByItemId (kots order)) (items order) of
        Inl e \<Rightarrow> Inl e
      | Inr toPrint \<Rightarrow>
          if toPrint = [] then Inl NoNewItems
          else
            let newKot = \<lparr>kotNumber = length (kots order) + 1, kot_items = toPrint,
                          printedAt = now, printedBy = ''Staff''\<rparr>
            in Inr (newKot, order\<lparr>kots := kots order @ [newKot]\<rparr>))"

definition generateTicket :: "nat \<Rightarrow> nat \<Rightarrow> store \<Rightarrow> (error + kot) \<times> store" where
  "generateTicket now orderId db =
     (case db orderId of
        None \<Rightarrow> (Inl OrderNotFound, db)
      | Some order \<Rightarrow>
          (case print_kot now order of
             Inl e \<Rightarrow> (Inl e, db)
           | Inr (newKot, order') \<Rightarrow> (Inr newKot, db(orderId \<mapsto> order'))))"

section \<open>Order status, payment and cancellation routes\<close>

text \<open>PATCH /:orderId/status. \<open>batchIds\<close> is the list of batch ids of the request (a bare
  string is a one-element list, a missing field the empty list); the status is one of the six
  valid values by its type. The restrictions that a
  Mongoose \<open>Map\<close> puts on its keys are not modelled.\<close>

definition set_order_status :: "status \<Rightarrow> string list \<Rightarrow> order \<Rightarrow> order" where
  "set_order_status st batchIds order =
     (if batchIds \<noteq> [] then
        let bs0 = (case batchStatus order of
                     None \<Rightarrow> [(''original'', order_status order)]
                   | Some m \<Rightarrow> m);
            bs1 = foldl (\<lambda>m batchId. if trim batchId \<noteq> [] then AList.update batchId st m else m)
                    bs0 batchIds;
            order1 = order\<lparr>batchStatus := Some bs1\<rparr>
        in if length (remdups (map snd bs1)) = 1 then order1\<lparr>order_status := st\<rparr> else order1
      else order\<lparr>order_status := st, batchStatus := Some [(''all'', st)]\<rparr>)"

definition setOrderStatus :: "status \<Rightarrow> string list \<Rightarrow> nat \<Rightarrow> store \<Rightarrow> (error + order) \<times> store" where
  "setOrderStatus st batchIds orderId db =
     (case db orderId of
        None \<Rightarrow> (Inl OrderNotFound, db)
      | Some order \<Rightarrow>
          (let order' = set_order_status st batchIds order
           in (Inr order', db(orderId \<mapsto> order'))))"

text \<open>PATCH /:orderId/payment\<close>

definition recordPayment ::
  "nat \<Rightarrow> payment_method \<Rightarrow> nat \<Rightarrow> store \<Rightarrow> (error + order) \<times> store" where
  "recordPayment now payMethod orderId db =
     (case db orderId of
        None \<Rightarrow> (Inl OrderNotFound, db)
      | Some order \<Rightarrow>
          if order_status order \<noteq> Served then (Inl (NotServed (order_status order)), db)
          else
            let order' = order\<lparr>order_status := Paid, paymentMethod := Some payMethod,
                               paymentCompletedAt := Some now\<rparr>
            in (Inr order', db(orderId \<mapsto> order')))"

text \<open>DELETE /:orderId\<close>

definition cancelOrder :: "nat \<Rightarrow> store \<Rightarrow> (error + order) \<times> store" where
  "cancelOrder orderId db =
     (case db orderId of
        None \<Rightarrow> (Inl OrderNotFound, db)
      | Some order \<Rightarrow>
          if order_status order \<noteq> Pending then (Inl (NotPending (order_status order)), db)
          else
            let order' = order\<lparr>order_status := Cancelled\<rparr>
            in (Inr order', db(orderId \<mapsto> order')))"

section \<open>Order creation (POST /table/:tableId/order)\<close>

text \<open>The item objects of the new order; \<open>isNew\<close>, \<open>isRemoved\<close> and \<open>status\<close> take the
  schema defaults. The lookups of the table and of its restaurant are outside the model.\<close>

definition created_item :: "req_item \<times> menu_item \<Rightarrow> order_item" where
  "created_item p =
     (case p of (item, menuItem) \<Rightarrow>
        \<lparr>item_id = None, menuItemId = req_menuItemId item, name = mi_name menuItem,
         price = mi_price menuItem, quantity = req_quantity item, addons = req_addons item,
         specialInstructions = req_specialInstructions item, isNew = False, isRemoved = False,
         status = Pending\<rparr>)"

definition placeOrder ::
  "nat \<Rightarrow> (nat \<rightharpoonup> menu_item) \<Rightarrow> req_item list \<Rightarrow> string \<Rightarrow> string \<Rightarrow> error + order" where
  "placeOrder fresh menuItemMap its newName newInstructions =
     (if its = [] then Inl EmptyItems
      else if list_ex (\<lambda>item. req_quantity item < 1) its then Inl InvalidQuantity
      else if missing_items menuItemMap its \<noteq> [] then Inl (MenuItemsMissing (missing_items menuItemMap its))
      else
        let orderItems = map created_item (resolve_items menuItemMap its)
        in Inr \<lparr>items = assign_ids fresh orderItems,
                totalPrice = round2 (items_total orderItems),
                customerName = (if trim newName = [] then ''Guest'' else trim newName),
                order_specialInstructions = trim newInstructions,
                order_status = Pending, paymentMethod = None, paymentCompletedAt = None,
                isUpdated = False, updateCount = 0, originalItems = [], updateHistory = [],
                kots = [], batchStatus = Some [(''original'', Pending)],
                hasUnseenChanges = False\<rparr>)"

section \<open>Notions used to state the properties\<close>

text \<open>The lines of a list that carry a given identity key, and quantity sums over lines:
  \<open>total_quantity\<close> counts every line, \<open>active_quantity\<close> only the lines not flagged
  \<open>isRemoved\<close>.\<close>

definition lines_of_key :: "item_key \<Rightarrow> order_item list \<Rightarrow> order_item list" where
  "lines_of_key k ls = filter (\<lambda>l. line_key l = k) ls"

definition total_quantity :: "order_item list \<Rightarrow> int" where
  "total_quantity ls = sum_list (map quantity ls)"

definition active_quantity :: "order_item list \<Rightarrow> int" where
  "active_quantity ls = total_quantity (filter (\<lambda>l. \<not> isRemoved l) ls)"

text \<open>The submitted items of a key, and the desired quantity of the key: the sum of their
  quantities, \<open>0\<close> for a key that is not submitted.\<close>

definition submitted :: "item_key \<Rightarrow> (req_item \<times> menu_item) list \<Rightarrow> (req_item \<times> menu_item) list" where
  "submitted k its = filter (\<lambda>p. req_key (fst p) = k) its"

definition desiredQty :: "item_key \<Rightarrow> (req_item \<times> menu_item) list \<Rightarrow> int" where
  "desiredQty k its = sum_list (map (\<lambda>p. req_quantity (fst p)) (filter (\<lambda>p. req_key (fst p) = k) its))"

text \<open>What the staff branch pushes for one key: the value of the callback of
  \<open>incomingMap.forEach\<close> at the entry of the key, nothing for a key without entry.\<close>

definition staff_key_result ::
  "nat \<Rightarrow> order_item list \<Rightarrow> (req_item \<times> menu_item) list \<Rightarrow> item_key
     \<Rightarrow> order_item list \<times> change_event list" where
  "staff_key_result now oldItems its k =
     (case map_of (group_incoming its []) k of
        None \<Rightarrow> ([], [])
      | Some inc \<Rightarrow> staff_reconcile_key now (existing_for (group_existing oldItems []) k) inc)"

text \<open>The lines of a key in the item list built by the staff branch.\<close>

definition staff_lines ::
  "nat \<Rightarrow> order_item list \<Rightarrow> (req_item \<times> menu_item) list \<Rightarrow> item_key \<Rightarrow> order_item list" where
  "staff_lines now oldItems its k = lines_of_key k (fst (staff_reconcile now oldItems its))"

text \<open>The object pushed on full removal: \<open>{...item.toObject(), isRemoved: true, isNew: false}\<close>.\<close>

definition flag_removed :: "order_item \<Rightarrow> order_item" where
  "flag_removed item = item\<lparr>isRemoved := True, isNew := False\<rparr>"

text \<open>\<open>sortedExisting\<close> of case C for the existing lines of a key.\<close>

definition sortedExisting :: "item_key \<Rightarrow> order_item list \<Rightarrow> order_item list" where
  "sortedExisting k oldItems =
     sort_key (\<lambda>i. statusPriority (status i)) (map sort_line (lines_of_key k oldItems))"

text \<open>Ticket generation. \<open>printed_sum\<close> is the quantity already printed for a line id
  across all tickets; a line without id has nothing printed. \<open>printable\<close> lines are the
  lines not flagged \<open>isRemoved\<close> whose remaining quantity is positive, and
  \<open>expected_items\<close> is the ticket content for them. \<open>lookup0\<close> is
  \<open>map.get(id) || 0\<close>. \<open>all_saved\<close> holds of the item list of a saved order,
  where every line has an id; lines flagged \<open>isRemoved\<close> are not looked at.\<close>

definition printed_sum :: "kot list \<Rightarrow> nat \<Rightarrow> int" where
  "printed_sum ks i =
     sum_list (map kot_quantity (filter (\<lambda>kotItem. itemId kotItem = i) (concat (map kot_items ks))))"

definition alreadyPrinted :: "kot list \<Rightarrow> order_item \<Rightarrow> int" where
  "alreadyPrinted ks item = (case item_id item of None \<Rightarrow> 0 | Some i \<Rightarrow> printed_sum ks i)"

definition remainingQty :: "kot list \<Rightarrow> order_item \<Rightarrow> int" where
  "remainingQty ks item = quantity item - alreadyPrinted ks item"

definition printable :: "kot list \<Rightarrow> order_item \<Rightarrow> bool" where
  "printable ks item = (\<not> isRemoved item \<and> remainingQty ks item > 0)"

definition expected_items :: "kot list \<Rightarrow> order_item list \<Rightarrow> kot_item list" where
  "expected_items ks ls =
     concat (map (\<lambda>l. case item_id l of
                          None \<Rightarrow> []
                        | Some i \<Rightarrow> if printable ks l then [printed_item i l (remainingQty ks l)] else [])
               ls)"

definition lookup0 :: "(nat \<times> int) list \<Rightarrow> nat \<Rightarrow> int" where
  "lookup0 m i = (case map_of m i of None \<Rightarrow> 0 | Some qty \<Rightarrow> qty)"

definition all_saved :: "order_item list \<Rightarrow> bool" where
  "all_saved ls = list_all (\<lambda>l. isRemoved l \<or> item_id l \<noteq> None) ls"

text \<open>The update route: \<open>reconciled\<close> is the outcome of the reconciliation the route
  runs on an order (new item list, change log, unrounded total), \<open>current_history\<close> its
  change log (\<open>currentUpdateHistory\<close>), and \<open>updated_order\<close> the order that the
  route saves when no check rejects the request.\<close>

definition reconciled ::
  "bool \<Rightarrow> nat \<Rightarrow> (nat \<rightharpoonup> menu_item) \<Rightarrow> req_item list \<Rightarrow> order
     \<Rightarrow> order_item list \<times> change_event list \<times> rat" where
  "reconciled isStaffEdit now menuItemMap its order =
     reconcile isStaffEdit now (filter (\<lambda>item. \<not> isRemoved item) (items order))
       (resolve_items menuItemMap its)"

definition current_history ::
  "bool \<Rightarrow> nat \<Rightarrow> (nat \<rightharpoonup> menu_item) \<Rightarrow> req_item list \<Rightarrow> order \<Rightarrow> change_event list" where
  "current_history isStaffEdit now menuItemMap its order =
     fst (snd (reconciled isStaffEdit now menuItemMap its order))"

definition updated_order ::
  "nat \<Rightarrow> nat \<Rightarrow> bool \<Rightarrow> (nat \<rightharpoonup> menu_item) \<Rightarrow> req_item list \<Rightarrow> string option
     \<Rightarrow> string option \<Rightarrow> order \<Rightarrow> order" where
  "updated_order now fresh isStaffEdit menuItemMap its newName newInstructions order =
     (apply_history (fst (snd (reconciled isStaffEdit now menuItemMap its order)))
        (order\<lparr>originalItems := (if isUpdated order then originalItems order
                                    else map snapshot_item (items order)),
               items := fst (reconciled isStaffEdit now menuItemMap its order),
               totalPrice := round2 (snd (snd (reconciled isStaffEdit now menuItemMap its order))),
               customerName := trim_or newName (customerName order),
               order_specialInstructions := trim_or newInstructions (order_specialInstructions order),
               isUpdated := True, updateCount := updateCount order + 1\<rparr>))
     \<lparr>items := assign_ids fresh (fst (reconciled isStaffEdit now menuItemMap its order))\<rparr>"

text \<open>The lines of a key in the item list built by the customer branch.\<close>

definition customer_lines ::
  "nat \<Rightarrow> order_item list \<Rightarrow> (req_item \<times> menu_item) list \<Rightarrow> item_key \<Rightarrow> order_item list" where
  "customer_lines now oldItems its k = lines_of_key k (fst (customer_reconcile now oldItems its))"

text \<open>The sum of the prices of the lines not flagged \<open>isRemoved\<close>.\<close>

definition active_total :: "order_item list \<Rightarrow> rat" where
  "active_total ls = sum_list (map item_total (filter (\<lambda>l. \<not> isRemoved l) ls))"

text \<open>The submission without the items of a key.\<close>

definition without_key :: "item_key \<Rightarrow> (req_item \<times> menu_item) list \<Rightarrow> (req_item \<times> menu_item) list" where
  "without_key k its = filter (\<lambda>p. req_key (fst p) \<noteq> k) its"

text \<open>The item list of a saved order: every line has an id, the ids are pairwise distinct,
  and they are below \<open>fresh\<close>, the first id not in use.\<close>

definition ids_in_use :: "nat \<Rightarrow> order_item list \<Rightarrow> bool" where
  "ids_in_use fresh ls =
     (distinct (map item_id ls)
      \<and> list_all (\<lambda>l. case item_id l of None \<Rightarrow> False | Some i \<Rightarrow> i < fresh) ls)"

section \<open>Example data\<close>

definition burger :: menu_item where
  "burger = \<lparr>mi_name = ''Burger'', mi_price = 10\<rparr>"

definition fries :: menu_item where
  "fries = \<lparr>mi_name = ''Fries'', mi_price = 5\<rparr>"

definition example_menu :: "nat \<rightharpoonup> menu_item" where
  "example_menu i = (if i = 7 then Some burger else if i = 8 then Some fries else None)"

definition burger_line :: "nat \<Rightarrow> int \<Rightarrow> status \<Rightarrow> order_item" where
  "burger_line i q s =
     \<lparr>item_id = Some i, menuItemId = 7, name = ''Burger'', price = 10, quantity = q, addons = [],
      specialInstructions = [], isNew = False, isRemoved = False, status = s\<rparr>"

definition fries_line :: "nat \<Rightarrow> int \<Rightarrow> status \<Rightarrow> order_item" where
  "fries_line i q s =
     \<lparr>item_id = Some i, menuItemId = 8, name = ''Fries'', price = 5, quantity = q, addons = [],
      specialInstructions = [], isNew = False, isRemoved = False, status = s\<rparr>"

definition burger_req :: "int \<Rightarrow> req_item" where
  "burger_req q = \<lparr>req_menuItemId = 7, req_quantity = q, req_addons = [], req_specialInstructions = []\<rparr>"

definition fries_req :: "int \<Rightarrow> req_item" where
  "fries_req q = \<lparr>req_menuItemId = 8, req_quantity = q, req_addons = [], req_specialInstructions = []\<rparr>"

definition burger_key :: item_key where
  "burger_key = (7, [])"

definition fries_key :: item_key where
  "fries_key = (8, [])"

definition example_order :: "order_item list \<Rightarrow> status \<Rightarrow> order" where
  "example_order its s =
     \<lparr>items = its, totalPrice = 30, customerName = ''Guest'', order_specialInstructions = [],
      order_status = s, paymentMethod = None, paymentCompletedAt = None, isUpdated = False,
      updateCount = 0, originalItems = [], updateHistory = [], kots = [],
      batchStatus = Some [(''original'', s)], hasUnseenChanges = False\<rparr>"

definition example_db :: store where
  "example_db i =
     (if i = 501 then Some (example_order [burger_line 101 2 Pending, fries_line 102 1 Pending] Pending)
      else None)"

definition served_db :: store where
  "served_db i = (if i = 501 then Some (example_order [burger_line 101 1 Served] Served) else None)"

definition paid_db :: store where
  "paid_db i = (if i = 501 then Some (example_order [burger_line 101 1 Served] Paid) else None)"

definition bug_order :: order where
  "bug_order = example_order [burger_line 101 1 Pending, burger_line 102 1 Preparing] Preparing"

definition dropped_order :: order where
  "dropped_order = example_order [burger_line 101 2 Preparing, fries_line 102 1 Pending] Preparing"

definition cheese_fries_line :: "nat \<Rightarrow> int \<Rightarrow> status \<Rightarrow> order_item" where
  "cheese_fries_line i q s = (fries_line i q s)\<lparr>addons := [AddonStr ''Cheese'']\<rparr>"

definition flagged_order :: order where
  "flagged_order =
     example_order [flag_removed (burger_line 101 1 Pending), cheese_fries_line 103 1 Preparing,
                    cheese_fries_line 104 2 Pending, fries_line 102 1 Pending] Preparing"

section \<open>Staff reconciliation, key by key\<close>

lemma foldl_add_sum_list:
  fixes f :: "'a \<Rightarrow> 'b::comm_monoid_add"
  shows "foldl (\<lambda>s x. s + f x) a xs = a + sum_list (map f xs)"
  by (induction xs arbitrary: a) (simp_all add: add.assoc)

lemma sort_addons_idem: "sort_addons (sort_addons xs) = sort_addons xs"
  by (simp add: sort_addons_def sort_key_id_if_sorted)

lemma line_key_sort_line: "line_key (sort_line l) = line_key l"
  by (simp add: line_key_def sort_line_def sort_addons_idem)

lemma req_key_sort_req: "req_key (sort_req r) = req_key r"
  by (simp add: req_key_def sort_req_def sort_addons_idem)

lemma existing_for_update:
  "existing_for (AList.update k v m) k' = (if k' = k then v else existing_for m k')"
  by (simp add: existing_for_def update_conv')

lemma existing_for_group_existing:
  "existing_for (group_existing old m) k
     = existing_for m k @ map sort_line (lines_of_key k old)"
proof (induction old arbitrary: m)
  case Nil
  then show ?case by (simp add: lines_of_key_def)
next
  case (Cons l old)
  show ?case
    by (simp add: Cons.IH Let_def existing_for_update lines_of_key_def)
       (simp add: existing_for_def)
qed

lemma existing_for_grouped:
  "existing_for (group_existing old []) k = map sort_line (lines_of_key k old)"
  by (simp add: existing_for_group_existing) (simp add: existing_for_def)

lemma desiredQty_Cons:
  "desiredQty k ((it, mi) # its) = (if req_key it = k then req_quantity it else 0) + desiredQty k its"
  by (simp add: desiredQty_def)

lemma group_incoming_step_new:
  "map_of m (req_key it) = None \<Longrightarrow>
   group_incoming ((it, mi) # its) m
     = group_incoming its (AList.update (req_key it) (req_quantity it, sort_req it, mi) m)"
  by simp

lemma group_incoming_step_old:
  "map_of m (req_key it) = Some (q, d, mi') \<Longrightarrow>
   group_incoming ((it, mi) # its) m
     = group_incoming its (AList.update (req_key it) (q + req_quantity it, d, mi') m)"
  by simp

lemma map_of_group_incoming:
  "map_of (group_incoming its m) k =
     (case map_of m k of
        Some (q, d, mi) \<Rightarrow> Some (q + desiredQty k its, d, mi)
      | None \<Rightarrow>
          (case submitted k its of
             [] \<Rightarrow> None
           | (it, mi) # _ \<Rightarrow> Some (desiredQty k its, sort_req it, mi)))"
proof (induction its arbitrary: m)
  case Nil
  then show ?case by (simp add: desiredQty_def submitted_def split: option.splits)
next
  case (Cons p its)
  obtain it mi where p: "p = (it, mi)" by (cases p)
  have dq: "desiredQty k (p # its) = (if req_key it = k then req_quantity it else 0) + desiredQty k its"
    and sb: "submitted k (p # its) = (if req_key it = k then [(it, mi)] else []) @ submitted k its"
    by (simp_all add: p desiredQty_Cons submitted_def)
  show ?case
  proof (cases "map_of m (req_key it)")
    case None
    have "map_of (group_incoming (p # its) m) k
            = map_of (group_incoming its (AList.update (req_key it) (req_quantity it, sort_req it, mi) m)) k"
      using None by (simp only: p group_incoming_step_new)
    also have "\<dots> = (case map_of (AList.update (req_key it) (req_quantity it, sort_req it, mi) m) k of
        Some (q, d, mi) \<Rightarrow> Some (q + desiredQty k its, d, mi)
      | None \<Rightarrow>
          (case submitted k its of
             [] \<Rightarrow> None
           | (it, mi) # _ \<Rightarrow> Some (desiredQty k its, sort_req it, mi)))"
      by (rule Cons.IH)
    also have "\<dots> = (case map_of m k of
        Some (q, d, mi) \<Rightarrow> Some (q + desiredQty k (p # its), d, mi)
      | None \<Rightarrow>
          (case submitted k (p # its) of
             [] \<Rightarrow> None
           | (it, mi) # _ \<Rightarrow> Some (desiredQty k (p # its), sort_req it, mi)))"
      unfolding dq sb using None by (cases "req_key it = k") (auto simp: update_conv' split: option.splits list.splits)
    finally show ?thesis .
  next
    case (Some v)
    obtain q d mi' where v: "v = (q, d, mi')" by (cases v)
    have "map_of (group_incoming (p # its) m) k
            = map_of (group_incoming its (AList.update (req_key it) (q + req_quantity it, d, mi') m)) k"
      using Some by (simp only: p v group_incoming_step_old)
    also have "\<dots> = (case map_of (AList.update (req_key it) (q + req_quantity it, d, mi') m) k of
        Some (q, d, mi) \<Rightarrow> Some (q + desiredQty k its, d, mi)
      | None \<Rightarrow>
          (case submitted k its of
             [] \<Rightarrow> None
           | (it, mi) # _ \<Rightarrow> Some (desiredQty k its, sort_req it, mi)))"
      by (rule Cons.IH)
    also have "\<dots> = (case map_of m k of
        Some (q, d, mi) \<Rightarrow> Some (q + desiredQty k (p # its), d, mi)
      | None \<Rightarrow>
          (case submitted k (p # its) of
             [] \<Rightarrow> None
           | (it, mi) # _ \<Rightarrow> Some (desiredQty k (p # its), sort_req it, mi)))"
      unfolding dq sb using Some v by (cases "req_key it = k") (auto simp: update_conv' split: option.splits list.splits)
    finally show ?thesis .
  qed
qed

lemma map_of_grouped_incoming:
  "map_of (group_incoming its []) k =
     (case submitted k its of
        [] \<Rightarrow> None
      | (it, mi) # _ \<Rightarrow> Some (desiredQty k its, sort_req it, mi))"
  by (simp add: map_of_group_incoming)

lemma distinct_group_incoming:
  "distinct (map fst m) \<Longrightarrow> distinct (map fst (group_incoming its m))"
proof (induction its arbitrary: m)
  case Nil
  then show ?case by simp
next
  case (Cons p its)
  obtain it mi where p: "p = (it, mi)" by (cases p)
  show ?case
    using Cons.prems
    by (auto simp: p Let_def distinct_update intro!: Cons.IH split: option.splits)
qed

lemma filter_concat_keyed:
  assumes "distinct (map fst xs)"
    and "\<And>k' v l. (k', v) \<in> set xs \<Longrightarrow> l \<in> set (f k' v) \<Longrightarrow> key l = k'"
  shows "filter (\<lambda>l. key l = k) (concat (map (\<lambda>(k', v). f k' v) xs))
           = (case map_of xs k of None \<Rightarrow> [] | Some v \<Rightarrow> f k v)"
  using assms
proof (induction xs)
  case Nil
  then show ?case by simp
next
  case (Cons x xs)
  obtain k' v where x: "x = (k', v)" by (cases x)
  have ih: "filter (\<lambda>l. key l = k) (concat (map (\<lambda>(k', v). f k' v) xs))
           = (case map_of xs k of None \<Rightarrow> [] | Some v \<Rightarrow> f k v)"
    using Cons by auto
  show ?case
  proof (cases "k' = k")
    case True
    have "map_of xs k = None"
      using Cons.prems(1) True x by (auto simp: map_of_eq_None_iff)
    moreover have "filter (\<lambda>l. key l = k) (f k v) = f k v"
      using Cons.prems(2)[of k v] True x by (auto simp: filter_id_conv)
    ultimately show ?thesis
      using ih True x by simp
  next
    case False
    have "filter (\<lambda>l. key l = k) (f k' v) = []"
      using Cons.prems(2)[of k' v] False x by (auto simp: filter_empty_conv)
    then show ?thesis
      using ih False x by simp
  qed
qed

lemma map_line_key_remove_from: "map line_key (remove_from r ls) = map line_key ls"
  by (induction ls arbitrary: r) (simp_all add: line_key_def)

lemma line_key_remove_from:
  "l \<in> set (remove_from r ls) \<Longrightarrow> line_key l \<in> line_key ` set ls"
proof -
  assume "l \<in> set (remove_from r ls)"
  then have "line_key l \<in> set (map line_key (remove_from r ls))" by simp
  then show ?thesis by (simp add: map_line_key_remove_from)
qed

lemma submitted_head:
  assumes "submitted k its = (it, mi) # rest"
  shows "req_key it = k"
proof -
  have "(it, mi) \<in> set (submitted k its)" using assms by simp
  then show ?thesis by (simp add: submitted_def)
qed

lemma incoming_entry:
  assumes "map_of (group_incoming its []) k = Some (q, d, mi)"
  shows "q = desiredQty k its" and "req_key d = k" and "submitted k its \<noteq> []"
  using assms
  by (auto simp: map_of_grouped_incoming req_key_sort_req
           split: list.splits dest: submitted_head)

lemma line_key_new_pending_item:
  "line_key (new_pending_item mi d n) = req_key d"
  by (simp add: line_key_def new_pending_item_def req_key_def)

lemma staff_reconcile_key_keys:
  assumes "map_of (group_incoming its []) k = Some inc"
    and "l \<in> set (fst (staff_reconcile_key now (existing_for (group_existing old []) k) inc))"
  shows "line_key l = k"
proof -
  obtain q d mi where inc: "inc = (q, d, mi)" by (cases inc)
  have kd: "req_key d = k" using assms(1) inc incoming_entry(2) by blast
  let ?ex = "map sort_line (lines_of_key k old)"
  have ex: "\<And>x. x \<in> set ?ex \<Longrightarrow> line_key x = k"
    by (auto simp: lines_of_key_def line_key_sort_line)
  have "l \<in> set (fst (staff_reconcile_key now ?ex (q, d, mi)))"
    using assms(2) by (simp add: inc existing_for_grouped)
  then consider "l \<in> set ?ex" | "l = new_pending_item mi d (q - foldl (\<lambda>sum i. sum + quantity i) 0 ?ex)"
    | r where "l \<in> set (remove_from r (sort_key (\<lambda>i. statusPriority (status i)) ?ex))"
    by (auto simp: staff_reconcile_key_def Let_def split: if_splits)
  then show ?thesis
  proof cases
    case 1
    then show ?thesis by (rule ex)
  next
    case 2
    then show ?thesis by (simp add: line_key_new_pending_item kd)
  next
    case 3
    then have "line_key l \<in> line_key ` set (sort_key (\<lambda>i. statusPriority (status i)) ?ex)"
      by (rule line_key_remove_from)
    then show ?thesis using ex by auto
  qed
qed

lemma staff_reconcile_lines_of_key:
  "lines_of_key k (fst (staff_reconcile now old its)) = fst (staff_key_result now old its k)"
proof -
  let ?f = "\<lambda>k' inc. fst (staff_reconcile_key now (existing_for (group_existing old []) k') inc)"
  have d: "distinct (map fst (group_incoming its []))"
    by (rule distinct_group_incoming) simp
  have keys: "\<And>k' v l. (k', v) \<in> set (group_incoming its []) \<Longrightarrow> l \<in> set (?f k' v) \<Longrightarrow> line_key l = k'"
    using d staff_reconcile_key_keys by (metis map_of_is_SomeI)
  have "lines_of_key k (fst (staff_reconcile now old its))
          = filter (\<lambda>l. line_key l = k) (concat (map (\<lambda>(k', v). ?f k' v) (group_incoming its [])))"
    by (simp add: staff_reconcile_def lines_of_key_def Let_def case_prod_unfold comp_def)
  also have "\<dots> = (case map_of (group_incoming its []) k of None \<Rightarrow> [] | Some v \<Rightarrow> ?f k v)"
    using d keys by (rule filter_concat_keyed)
  also have "\<dots> = fst (staff_key_result now old its k)"
    by (simp add: staff_key_result_def split: option.splits)
  finally show ?thesis .
qed

lemma staff_key_result_submitted:
  assumes "submitted k its = (it, mi) # rest"
  shows "staff_key_result now old its k
           = staff_reconcile_key now (map sort_line (lines_of_key k old)) (desiredQty k its, sort_req it, mi)"
  using assms by (simp add: staff_key_result_def map_of_grouped_incoming existing_for_grouped)

lemma remove_from_nonpos: "r \<le> 0 \<Longrightarrow> remove_from r ls = ls"
  by (induction ls) simp_all

lemma length_remove_from: "length (remove_from r ls) = length ls"
  by (induction ls arbitrary: r) simp_all

lemma active_quantity_remove_from:
  assumes "\<forall>l \<in> set ls. \<not> isRemoved l" and "r \<le> total_quantity ls"
  shows "active_quantity (remove_from r ls) = total_quantity ls - max r 0"
  using assms
proof (induction ls arbitrary: r)
  case Nil
  then show ?case by (simp add: active_quantity_def total_quantity_def)
next
  case (Cons l ls)
  have nr: "\<forall>x \<in> set ls. \<not> isRemoved x" and nl: "\<not> isRemoved l"
    using Cons.prems(1) by simp_all
  have same: "active_quantity ls = total_quantity ls"
    using nr by (simp add: active_quantity_def filter_id_conv)
  consider "r \<le> 0" | "0 < r" "quantity l > r" | "0 < r" "quantity l \<le> r" by linarith
  then show ?case
  proof cases
    case 1
    then show ?thesis
      using nl same by (simp add: remove_from_nonpos active_quantity_def total_quantity_def)
  next
    case 2
    then show ?thesis
      using nl same by (simp add: remove_from_nonpos active_quantity_def total_quantity_def)
  next
    case 3
    have le: "r - quantity l \<le> total_quantity ls"
      using Cons.prems(2) by (simp add: total_quantity_def)
    have "active_quantity (remove_from (r - quantity l) ls)
            = total_quantity ls - max (r - quantity l) 0"
      using nr le by (rule Cons.IH)
    then show ?thesis
      using 3 by (simp add: active_quantity_def total_quantity_def)
  qed
qed

lemma total_quantity_remove_from: "total_quantity (remove_from r ls) \<le> total_quantity ls"
proof (induction ls arbitrary: r)
  case Nil
  then show ?case by simp
next
  case (Cons l ls)
  show ?case
    using Cons.IH[of "r - quantity l"]
    by (simp add: total_quantity_def remove_from_nonpos)
qed

lemma total_quantity_sort_line: "total_quantity (map sort_line ls) = total_quantity ls"
  by (simp add: total_quantity_def sort_line_def comp_def)

lemma total_quantity_sort_key: "total_quantity (sort_key f ls) = total_quantity ls"
proof -
  have "mset (map quantity (sort_key f ls)) = mset (map quantity ls)" by simp
  then have "sum_mset (mset (map quantity (sort_key f ls))) = sum_mset (mset (map quantity ls))"
    by (rule arg_cong)
  then show ?thesis
    by (simp only: total_quantity_def sum_mset_sum_list)
qed

lemma not_removed_sort_line:
  "\<forall>l \<in> set ls. \<not> isRemoved l \<Longrightarrow> \<forall>l \<in> set (map sort_line ls). \<not> isRemoved l"
  by (simp add: sort_line_def)

lemma staff_reconcile_key_cases:
  "staff_reconcile_key now ex (q, d, mi) =
     (if q = total_quantity ex then (ex, [])
      else if q > total_quantity ex
      then (ex @ [new_pending_item mi d (q - total_quantity ex)],
            [if total_quantity ex = 0 then added_event now Staff (mi_name mi) q
             else staff_increased_event now (mi_name mi) (total_quantity ex) q])
      else (remove_from (total_quantity ex - q) (sort_key (\<lambda>i. statusPriority (status i)) ex),
            [staff_decreased_event now (mi_name mi) (total_quantity ex) q]))"
  by (simp add: staff_reconcile_key_def total_quantity_def foldl_add_sum_list Let_def)

lemma staff_key_result_same:
  assumes "submitted k its = (it, mi) # rest"
    and "desiredQty k its = total_quantity (lines_of_key k old)"
  shows "staff_key_result now old its k = (map sort_line (lines_of_key k old), [])"
  using assms(2)
  by (simp add: staff_key_result_submitted[OF assms(1)] staff_reconcile_key_cases
        total_quantity_sort_line)

lemma staff_key_result_more:
  assumes "submitted k its = (it, mi) # rest"
    and "desiredQty k its > total_quantity (lines_of_key k old)"
  shows "staff_key_result now old its k =
     (map sort_line (lines_of_key k old)
        @ [new_pending_item mi (sort_req it)
             (desiredQty k its - total_quantity (lines_of_key k old))],
      [if total_quantity (lines_of_key k old) = 0
       then added_event now Staff (mi_name mi) (desiredQty k its)
       else staff_increased_event now (mi_name mi) (total_quantity (lines_of_key k old))
              (desiredQty k its)])"
  using assms(2)
  by (simp add: staff_key_result_submitted[OF assms(1)] staff_reconcile_key_cases
        total_quantity_sort_line)

lemma staff_key_result_less:
  assumes "submitted k its = (it, mi) # rest"
    and "desiredQty k its < total_quantity (lines_of_key k old)"
  shows "staff_key_result now old its k =
     (remove_from (total_quantity (lines_of_key k old) - desiredQty k its) (sortedExisting k old),
      [staff_decreased_event now (mi_name mi) (total_quantity (lines_of_key k old))
         (desiredQty k its)])"
  using assms(2)
  by (simp add: staff_key_result_submitted[OF assms(1)] staff_reconcile_key_cases
        total_quantity_sort_line sortedExisting_def)

lemma active_quantity_all:
  "\<forall>l \<in> set ls. \<not> isRemoved l \<Longrightarrow> active_quantity ls = total_quantity ls"
  by (simp add: active_quantity_def filter_id_conv)

lemma not_removed_sortedExisting:
  assumes "\<forall>l \<in> set old. \<not> isRemoved l"
  shows "\<forall>l \<in> set (sortedExisting k old). \<not> isRemoved l"
  using assms by (simp add: sortedExisting_def lines_of_key_def sort_line_def)

lemma total_quantity_sortedExisting:
  "total_quantity (sortedExisting k old) = total_quantity (lines_of_key k old)"
  by (simp add: sortedExisting_def total_quantity_sort_key total_quantity_sort_line)

lemma desiredQty_pos:
  assumes "\<forall>p \<in> set its. 1 \<le> req_quantity (fst p)" and "submitted k its \<noteq> []"
  shows "1 \<le> desiredQty k its"
  using assms
proof (induction its)
  case Nil
  then show ?case by (simp add: submitted_def)
next
  case (Cons p its)
  obtain it mi where p: "p = (it, mi)" by (cases p)
  have nonneg: "0 \<le> desiredQty k its"
    using Cons.prems(1) by (fastforce simp: desiredQty_def intro!: sum_list_nonneg)
  show ?case
  proof (cases "submitted k its = []")
    case True
    then have "req_key it = k"
      using Cons.prems(2) by (auto simp: submitted_def p split: if_splits)
    then show ?thesis
      using Cons.prems(1) nonneg by (simp add: p desiredQty_Cons)
  next
    case False
    then have "1 \<le> desiredQty k its" using Cons by simp
    then show ?thesis
      using Cons.prems(1) by (simp add: p desiredQty_Cons)
  qed
qed

lemma staff_lines_key_result:
  "staff_lines now old its k = fst (staff_key_result now old its k)"
  by (simp add: staff_lines_def staff_reconcile_lines_of_key)

lemma remove_from_pointwise:
  "i < length ls \<Longrightarrow>
     remove_from r ls ! i = ls ! i
     \<or> remove_from r ls ! i = flag_removed (ls ! i)
     \<or> (\<exists>q'. 0 < q' \<and> q' < quantity (ls ! i) \<and> remove_from r ls ! i = (ls ! i)\<lparr>quantity := q'\<rparr>)"
proof (induction ls arbitrary: r i)
  case Nil
  then show ?case by simp
next
  case (Cons l ls)
  consider "r \<le> 0" | "0 < r" "quantity l > r" | "0 < r" "quantity l \<le> r" by linarith
  then show ?case
  proof cases
    case 1
    then show ?thesis by (simp add: remove_from_nonpos)
  next
    case 2
    show ?thesis
    proof (cases i)
      case 0
      have "\<exists>q'. 0 < q' \<and> q' < quantity ((l # ls) ! i)
              \<and> remove_from r (l # ls) ! i = ((l # ls) ! i)\<lparr>quantity := q'\<rparr>"
        using 2 0 by (intro exI[of _ "quantity l - r"]) simp
      then show ?thesis by blast
    next
      case (Suc i')
      then show ?thesis using 2 by (simp add: remove_from_nonpos)
    qed
  next
    case 3
    show ?thesis
    proof (cases i)
      case 0
      then show ?thesis using 3 by (simp add: flag_removed_def)
    next
      case (Suc i')
      then have "i' < length ls" using Cons.prems by simp
      from Cons.IH[OF this, of "r - quantity l"] show ?thesis
        using 3 Suc by simp
    qed
  qed
qed

lemma remove_from_before:
  "i < j \<Longrightarrow> j < length ls \<Longrightarrow> remove_from r ls ! j \<noteq> ls ! j
     \<Longrightarrow> remove_from r ls ! i = flag_removed (ls ! i)"
proof (induction ls arbitrary: r i j)
  case Nil
  then show ?case by simp
next
  case (Cons l ls)
  obtain j' where j: "j = Suc j'" using Cons.prems(1) by (cases j) auto
  consider "r \<le> 0" | "0 < r" "quantity l > r" | "0 < r" "quantity l \<le> r" by linarith
  then show ?case
  proof cases
    case 1
    then show ?thesis using Cons.prems(3) by (simp add: remove_from_nonpos)
  next
    case 2
    then show ?thesis using Cons.prems(3) j by (simp add: remove_from_nonpos)
  next
    case 3
    show ?thesis
    proof (cases i)
      case 0
      then show ?thesis using 3 by (simp add: flag_removed_def)
    next
      case (Suc i')
      have "remove_from (r - quantity l) ls ! i' = flag_removed (ls ! i')"
        using Cons.prems j Suc 3 by (intro Cons.IH[of i' j']) simp_all
      then show ?thesis using 3 Suc by simp
    qed
  qed
qed

lemma sorted_sortedExisting:
  "sorted (map (\<lambda>i. statusPriority (status i)) (sortedExisting k old))"
  by (simp add: sortedExisting_def)

lemma mset_sortedExisting:
  "mset (sortedExisting k old) = mset (map sort_line (lines_of_key k old))"
  by (simp add: sortedExisting_def)

lemma sorted_map_less_index:
  assumes "sorted (map f xs)" "i < length xs" "j < length xs" "f (xs ! i) < f (xs ! j)"
  shows "i < j"
proof (rule ccontr)
  assume "\<not> i < j"
  then have "j \<le> i" by simp
  then have "map f xs ! j \<le> map f xs ! i"
    using assms(1,2) sorted_nth_mono[of "map f xs" j i] by simp
  then show False using assms(2,3,4) by simp
qed

lemma staff_quantities:
  assumes "\<forall>l \<in> set oldItems. \<not> isRemoved l"
    and "\<forall>p \<in> set its. 1 \<le> req_quantity (fst p)"
    and "submitted k its \<noteq> []"
  shows "active_quantity (staff_lines now oldItems its k) = desiredQty k its"
    and "total_quantity (lines_of_key k oldItems) \<le> desiredQty k its \<Longrightarrow>
           total_quantity (staff_lines now oldItems its k) = desiredQty k its"
    and "desiredQty k its < total_quantity (lines_of_key k oldItems) \<Longrightarrow>
           total_quantity (staff_lines now oldItems its k) \<le> total_quantity (lines_of_key k oldItems)"
proof -
  obtain it mi rest where sub: "submitted k its = (it, mi) # rest"
    using assms(3) by (cases "submitted k its") auto
  have qpos: "1 \<le> desiredQty k its"
    using assms(2,3) by (rule desiredQty_pos)
  let ?E = "total_quantity (lines_of_key k oldItems)"
  let ?q = "desiredQty k its"
  let ?ex = "map sort_line (lines_of_key k oldItems)"
  have nr: "\<forall>l \<in> set ?ex. \<not> isRemoved l"
    using assms(1) by (simp add: lines_of_key_def sort_line_def)
  have exq: "active_quantity ?ex = ?E" "total_quantity ?ex = ?E"
    using nr by (simp_all add: active_quantity_all total_quantity_sort_line)
  have post: "staff_lines now oldItems its k
                = fst (staff_key_result now oldItems its k)"
    by (rule staff_lines_key_result)
  have same: "?q = ?E \<Longrightarrow> staff_lines now oldItems its k = ?ex"
    by (simp add: post staff_key_result_same[OF sub])
  have more: "?q > ?E \<Longrightarrow>
     staff_lines now oldItems its k = ?ex @ [new_pending_item mi (sort_req it) (?q - ?E)]"
    by (simp add: post staff_key_result_more[OF sub])
  have less: "?q < ?E \<Longrightarrow>
     staff_lines now oldItems its k = remove_from (?E - ?q) (sortedExisting k oldItems)"
    by (simp add: post staff_key_result_less[OF sub])
  have am: "active_quantity (?ex @ [new_pending_item mi (sort_req it) (?q - ?E)]) = ?q"
    using exq(1) by (simp add: active_quantity_def total_quantity_def new_pending_item_def)
  have tm: "total_quantity (?ex @ [new_pending_item mi (sort_req it) (?q - ?E)]) = ?q"
    using exq(2) by (simp add: total_quantity_def new_pending_item_def)
  have al: "?q < ?E \<Longrightarrow>
     active_quantity (remove_from (?E - ?q) (sortedExisting k oldItems)) = ?q"
    using active_quantity_remove_from[where r = "?E - ?q" and ls = "sortedExisting k oldItems"]
      not_removed_sortedExisting[OF assms(1), of k] qpos
    by (simp add: total_quantity_sortedExisting)
  have tl: "total_quantity (remove_from (?E - ?q) (sortedExisting k oldItems)) \<le> ?E"
    using total_quantity_remove_from[of "?E - ?q" "sortedExisting k oldItems"]
    by (simp add: total_quantity_sortedExisting)
  consider "?q = ?E" | "?q > ?E" | "?q < ?E" by linarith
  then show "active_quantity (staff_lines now oldItems its k) = ?q"
    using same more less am al exq(1) by cases simp_all
  show "total_quantity (staff_lines now oldItems its k) = ?q" if "?E \<le> ?q"
  proof (cases "?q = ?E")
    case True
    then show ?thesis using same exq(2) by simp
  next
    case False
    then have "?q > ?E" using that by simp
    then show ?thesis using more tm by simp
  qed
  show "total_quantity (staff_lines now oldItems its k) \<le> ?E" if "?q < ?E"
    using that less tl by simp
qed

text \<open>The item list and the change log of the staff branch are the concatenations, over the
  submitted keys in the order of their first occurrence, of what is pushed for each key.\<close>

lemma staff_key_result_entry:
  assumes "(k, inc) \<in> set (group_incoming its [])"
  shows "staff_key_result now old its k
           = staff_reconcile_key now (existing_for (group_existing old []) k) inc"
proof -
  have "distinct (map fst (group_incoming its []))"
    by (rule distinct_group_incoming) simp
  then have "map_of (group_incoming its []) k = Some inc"
    using assms by simp
  then show ?thesis by (simp add: staff_key_result_def)
qed

lemma staff_reconcile_by_key:
  "fst (staff_reconcile now old its)
     = concat (map (\<lambda>k. fst (staff_key_result now old its k)) (map fst (group_incoming its [])))"
  "fst (snd (staff_reconcile now old its))
     = concat (map (\<lambda>k. snd (staff_key_result now old its k)) (map fst (group_incoming its [])))"
proof -
  have eq: "map (\<lambda>(key, inc). staff_reconcile_key now (existing_for (group_existing old []) key) inc)
              (group_incoming its [])
          = map (\<lambda>k. staff_key_result now old its k) (map fst (group_incoming its []))"
    by (auto simp: staff_key_result_entry)
  show "fst (staff_reconcile now old its)
     = concat (map (\<lambda>k. fst (staff_key_result now old its k)) (map fst (group_incoming its [])))"
    unfolding staff_reconcile_def Let_def eq by (simp add: comp_def)
  show "fst (snd (staff_reconcile now old its))
     = concat (map (\<lambda>k. snd (staff_key_result now old its k)) (map fst (group_incoming its [])))"
    unfolding staff_reconcile_def Let_def eq by (simp add: comp_def)
qed

text \<open>The event that the staff branch logs for a submitted key sits in the change log
  between the events of the keys submitted before it and those of the keys submitted after
  it; without the items of the key the log is the same with that part taken out.\<close>

lemma filter_update_same:
  "filter (\<lambda>e. fst e \<noteq> k) (AList.update k v m) = filter (\<lambda>e. fst e \<noteq> k) m"
  by (induction m) auto

lemma filter_update_other:
  "k' \<noteq> k \<Longrightarrow>
   filter (\<lambda>e. fst e \<noteq> k) (AList.update k' v m) = AList.update k' v (filter (\<lambda>e. fst e \<noteq> k) m)"
  by (induction m) auto

lemma map_of_filter_other:
  "k' \<noteq> k \<Longrightarrow> map_of (filter (\<lambda>e. fst e \<noteq> k) m) k' = map_of m k'"
  by (induction m) auto

lemma group_incoming_without_key:
  "group_incoming (without_key k its) (filter (\<lambda>e. fst e \<noteq> k) m)
     = filter (\<lambda>e. fst e \<noteq> k) (group_incoming its m)"
proof (induction its arbitrary: m)
  case Nil
  then show ?case by (simp add: without_key_def)
next
  case (Cons p its)
  obtain it mi where p: "p = (it, mi)" by (cases p)
  show ?case
  proof (cases "req_key it = k")
    case True
    have w: "without_key k (p # its) = without_key k its"
      using True by (simp add: without_key_def p)
    show ?thesis
    proof (cases "map_of m (req_key it)")
      case None
      have "filter (\<lambda>e. fst e \<noteq> k) (group_incoming (p # its) m)
              = filter (\<lambda>e. fst e \<noteq> k)
                  (group_incoming its (AList.update (req_key it) (req_quantity it, sort_req it, mi) m))"
        using None by (simp only: p group_incoming_step_new)
      also have "\<dots> = group_incoming (without_key k its)
                  (filter (\<lambda>e. fst e \<noteq> k) (AList.update (req_key it) (req_quantity it, sort_req it, mi) m))"
        by (rule Cons.IH[symmetric])
      also have "\<dots> = group_incoming (without_key k its) (filter (\<lambda>e. fst e \<noteq> k) m)"
        using True by (simp add: filter_update_same)
      finally show ?thesis by (simp add: w)
    next
      case (Some v)
      obtain q d mi' where v: "v = (q, d, mi')" by (cases v)
      have "filter (\<lambda>e. fst e \<noteq> k) (group_incoming (p # its) m)
              = filter (\<lambda>e. fst e \<noteq> k)
                  (group_incoming its (AList.update (req_key it) (q + req_quantity it, d, mi') m))"
        using Some by (simp only: p v group_incoming_step_old)
      also have "\<dots> = group_incoming (without_key k its)
                  (filter (\<lambda>e. fst e \<noteq> k) (AList.update (req_key it) (q + req_quantity it, d, mi') m))"
        by (rule Cons.IH[symmetric])
      also have "\<dots> = group_incoming (without_key k its) (filter (\<lambda>e. fst e \<noteq> k) m)"
        using True by (simp add: filter_update_same)
      finally show ?thesis by (simp add: w)
    qed
  next
    case False
    have w: "without_key k (p # its) = (it, mi) # without_key k its"
      using False by (simp add: without_key_def p)
    have lk: "map_of (filter (\<lambda>e. fst e \<noteq> k) m) (req_key it) = map_of m (req_key it)"
      using False by (rule map_of_filter_other)
    show ?thesis
    proof (cases "map_of m (req_key it)")
      case None
      have "group_incoming (without_key k (p # its)) (filter (\<lambda>e. fst e \<noteq> k) m)
              = group_incoming (without_key k its)
                  (AList.update (req_key it) (req_quantity it, sort_req it, mi)
                     (filter (\<lambda>e. fst e \<noteq> k) m))"
        unfolding w using None lk by (simp only: group_incoming_step_new)
      also have "\<dots> = group_incoming (without_key k its)
                  (filter (\<lambda>e. fst e \<noteq> k)
                     (AList.update (req_key it) (req_quantity it, sort_req it, mi) m))"
        using False by (simp add: filter_update_other)
      also have "\<dots> = filter (\<lambda>e. fst e \<noteq> k)
                  (group_incoming its (AList.update (req_key it) (req_quantity it, sort_req it, mi) m))"
        by (rule Cons.IH)
      also have "\<dots> = filter (\<lambda>e. fst e \<noteq> k) (group_incoming (p # its) m)"
        using None by (simp only: p group_incoming_step_new)
      finally show ?thesis .
    next
      case (Some v)
      obtain q d mi' where v: "v = (q, d, mi')" by (cases v)
      have "group_incoming (without_key k (p # its)) (filter (\<lambda>e. fst e \<noteq> k) m)
              = group_incoming (without_key k its)
                  (AList.update (req_key it) (q + req_quantity it, d, mi')
                     (filter (\<lambda>e. fst e \<noteq> k) m))"
        unfolding w using Some lk v by (simp only: group_incoming_step_old)
      also have "\<dots> = group_incoming (without_key k its)
                  (filter (\<lambda>e. fst e \<noteq> k)
                     (AList.update (req_key it) (q + req_quantity it, d, mi') m))"
        using False by (simp add: filter_update_other)
      also have "\<dots> = filter (\<lambda>e. fst e \<noteq> k)
                  (group_incoming its (AList.update (req_key it) (q + req_quantity it, d, mi') m))"
        by (rule Cons.IH)
      also have "\<dots> = filter (\<lambda>e. fst e \<noteq> k) (group_incoming (p # its) m)"
        using Some v by (simp only: p group_incoming_step_old)
      finally show ?thesis .
    qed
  qed
qed

lemma staff_log_split:
  assumes "submitted k its \<noteq> []"
  shows "\<exists>pre post.
           fst (snd (staff_reconcile now old its))
             = pre @ snd (staff_key_result now old its k) @ post
           \<and> fst (snd (staff_reconcile now old (without_key k its))) = pre @ post"
proof -
  let ?im = "group_incoming its []"
  let ?g = "\<lambda>(key, inc). staff_reconcile_key now (existing_for (group_existing old []) key) inc"
  obtain it mi rest where sub: "submitted k its = (it, mi) # rest"
    using assms by (cases "submitted k its") auto
  let ?inc = "(desiredQty k its, sort_req it, mi)"
  have m: "map_of ?im k = Some ?inc"
    using sub by (simp add: map_of_grouped_incoming)
  have d: "distinct (map fst ?im)"
    by (rule distinct_group_incoming) simp
  have "(k, ?inc) \<in> set ?im"
    using m by (rule map_of_SomeD)
  then obtain A B where split: "?im = A @ (k, ?inc) # B"
    by (auto simp: in_set_conv_decomp)
  have notin: "k \<notin> fst ` set A" "k \<notin> fst ` set B"
    using d unfolding split by auto
  have fA: "filter (\<lambda>e. fst e \<noteq> k) A = A" and fB: "filter (\<lambda>e. fst e \<noteq> k) B = B"
    using notin by (auto simp: filter_id_conv)
  have im': "group_incoming (without_key k its) [] = A @ B"
    using group_incoming_without_key[of k its "[]"] by (simp add: split fA fB)
  have kr: "snd (staff_key_result now old its k) = snd (?g (k, ?inc))"
    by (simp add: staff_key_result_def m)
  have log: "fst (snd (staff_reconcile now old its))
               = concat (map snd (map ?g A)) @ snd (?g (k, ?inc)) @ concat (map snd (map ?g B))"
    by (simp add: staff_reconcile_def Let_def split)
  have log': "fst (snd (staff_reconcile now old (without_key k its)))
               = concat (map snd (map ?g A)) @ concat (map snd (map ?g B))"
    by (simp add: staff_reconcile_def Let_def im')
  show ?thesis
    using log log' kr by metis
qed

section \<open>Ticket generation: what is printed\<close>

lemma lookup0_fold:
  "lookup0 (foldl (\<lambda>m kotItem.
              AList.update (itemId kotItem)
                ((case map_of m (itemId kotItem) of None \<Rightarrow> 0 | Some qty \<Rightarrow> qty)
                   + kot_quantity kotItem) m) m0 xs) i
     = lookup0 m0 i + sum_list (map kot_quantity (filter (\<lambda>kotItem. itemId kotItem = i) xs))"
proof (induction xs arbitrary: m0)
  case Nil
  then show ?case by simp
next
  case (Cons x xs)
  show ?case
    by (simp add: Cons.IH) (simp add: lookup0_def update_conv')
qed

lemma lookup0_printed: "lookup0 (printedQtyByItemId ks) i = printed_sum ks i"
  unfolding printedQtyByItemId_def printed_sum_def lookup0_fold
  by (simp add: lookup0_def)

lemma itemsToPrint_Inr:
  assumes "itemsToPrint pm ls = Inr ps"
  shows "ps = concat (map (\<lambda>l. case item_id l of
                                   None \<Rightarrow> []
                                 | Some i \<Rightarrow>
                                     if \<not> isRemoved l \<and> quantity l - lookup0 pm i > 0
                                     then [printed_item i l (quantity l - lookup0 pm i)]
                                     else []) ls)"
    and "\<forall>l \<in> set ls. \<not> isRemoved l \<longrightarrow> item_id l \<noteq> None"
  using assms
proof (induction ls arbitrary: ps)
  case Nil
  {
    case 1
    then show ?case by simp
  next
    case 2
    then show ?case by simp
  }
next
  case (Cons l ls)
  {
    case 1
    then show ?case
      using Cons.IH(1)
      by (auto simp: lookup0_def Let_def split: if_splits option.splits sum.splits)
  next
    case 2
    then show ?case
      using Cons.IH(2)
      by (auto simp: lookup0_def Let_def split: if_splits option.splits sum.splits)
  }
qed

lemma itemsToPrint_expected:
  assumes "itemsToPrint (printedQtyByItemId ks) ls = Inr ps"
  shows "ps = expected_items ks ls" and "all_saved ls"
proof -
  have "ps = concat (map (\<lambda>l. case item_id l of
                                   None \<Rightarrow> []
                                 | Some i \<Rightarrow>
                                     if \<not> isRemoved l \<and> quantity l - lookup0 (printedQtyByItemId ks) i > 0
                                     then [printed_item i l (quantity l - lookup0 (printedQtyByItemId ks) i)]
                                     else []) ls)"
    using assms by (rule itemsToPrint_Inr(1))
  also have "\<dots> = expected_items ks ls"
    unfolding expected_items_def
    by (intro arg_cong[where f = concat] map_cong refl)
       (auto simp: lookup0_printed printable_def remainingQty_def alreadyPrinted_def
             split: option.splits)
  finally show "ps = expected_items ks ls" .
  show "all_saved ls"
    using itemsToPrint_Inr(2)[OF assms] by (auto simp: all_saved_def list_all_iff)
qed

lemma itemsToPrint_total:
  "all_saved ls \<Longrightarrow> \<exists>ps. itemsToPrint pm ls = Inr ps"
  by (induction ls) (auto simp: all_saved_def Let_def)

lemma itemsToPrint_saved:
  assumes "all_saved ls"
  shows "itemsToPrint (printedQtyByItemId ks) ls = Inr (expected_items ks ls)"
proof -
  obtain ps where ps: "itemsToPrint (printedQtyByItemId ks) ls = Inr ps"
    using itemsToPrint_total[OF assms] by blast
  then show ?thesis using itemsToPrint_expected(1)[OF ps] by simp
qed

lemma expected_items_quantities:
  assumes "all_saved ls"
  shows "map kot_quantity (expected_items ks ls) = map (remainingQty ks) (filter (printable ks) ls)"
    and "map (\<lambda>kotItem. Some (itemId kotItem)) (expected_items ks ls)
           = map item_id (filter (printable ks) ls)"
    and "map kot_name (expected_items ks ls) = map name (filter (printable ks) ls)"
  using assms
  by (induction ls)
     (auto simp: expected_items_def all_saved_def printed_item_def printable_def
           split: option.splits)

lemma expected_items_empty_iff:
  assumes "all_saved ls"
  shows "expected_items ks ls = [] \<longleftrightarrow> \<not> list_ex (printable ks) ls"
proof -
  have "expected_items ks ls = [] \<longleftrightarrow> map kot_quantity (expected_items ks ls) = []"
    by simp
  also have "\<dots> \<longleftrightarrow> filter (printable ks) ls = []"
    by (simp add: expected_items_quantities(1)[OF assms])
  also have "\<dots> \<longleftrightarrow> \<not> list_ex (printable ks) ls"
    by (simp add: filter_empty_conv list_ex_iff)
  finally show ?thesis .
qed

lemma sum_list_filter_member:
  fixes f :: "'a \<Rightarrow> int"
  assumes "\<forall>x \<in> set xs. 0 \<le> f x" and "y \<in> set xs" and "P y"
  shows "f y \<le> sum_list (map f (filter P xs))"
  using assms
proof (induction xs)
  case Nil
  then show ?case by simp
next
  case (Cons x xs)
  have nonneg: "0 \<le> sum_list (map f (filter P xs))"
    using Cons.prems(1) by (intro sum_list_nonneg) auto
  show ?case
  proof (cases "y = x")
    case True
    then show ?thesis using nonneg Cons.prems(3) by simp
  next
    case False
    then have "f y \<le> sum_list (map f (filter P xs))"
      using Cons by simp
    then show ?thesis using Cons.prems(1) by simp
  qed
qed

lemma expected_items_positive:
  "\<forall>kotItem \<in> set (expected_items ks ls). 0 \<le> kot_quantity kotItem"
  by (auto simp: expected_items_def printed_item_def printable_def split: option.splits if_splits)

lemma expected_items_member:
  assumes "l \<in> set ls" "item_id l = Some i" "printable ks l"
  shows "printed_item i l (remainingQty ks l) \<in> set (expected_items ks ls)"
  using assms by (auto simp: expected_items_def intro!: bexI[of _ l])

lemma printed_sum_append:
  "printed_sum (ks @ [k]) i
     = printed_sum ks i + sum_list (map kot_quantity (filter (\<lambda>kotItem. itemId kotItem = i) (kot_items k)))"
  by (simp add: printed_sum_def)

lemma nothing_left:
  assumes "l \<in> set ls" "item_id l = Some i"
  shows "\<not> printable (ks @ [k\<lparr>kot_items := expected_items ks ls\<rparr>]) l"
proof -
  let ?A = "sum_list (map kot_quantity (filter (\<lambda>kotItem. itemId kotItem = i) (expected_items ks ls)))"
  have rem': "remainingQty (ks @ [k\<lparr>kot_items := expected_items ks ls\<rparr>]) l = remainingQty ks l - ?A"
    by (simp add: remainingQty_def alreadyPrinted_def assms(2) printed_sum_append)
  have "isRemoved l \<or> remainingQty ks l \<le> ?A"
  proof (cases "printable ks l")
    case True
    have "kot_quantity (printed_item i l (remainingQty ks l)) \<le> ?A"
      using expected_items_positive expected_items_member[OF assms(1,2) True]
      by (intro sum_list_filter_member) (auto simp: printed_item_def)
    then show ?thesis by (simp add: printed_item_def)
  next
    case False
    have "0 \<le> ?A"
      using expected_items_positive by (intro sum_list_nonneg) auto
    then show ?thesis using False by (auto simp: printable_def)
  qed
  then show ?thesis by (auto simp: printable_def rem')
qed

lemma nothing_left_all:
  assumes "all_saved ls"
  shows "\<not> list_ex (printable (ks @ [k\<lparr>kot_items := expected_items ks ls\<rparr>])) ls"
proof -
  have "\<not> printable (ks @ [k\<lparr>kot_items := expected_items ks ls\<rparr>]) l" if "l \<in> set ls" for l
  proof (cases "item_id l")
    case None
    then have "isRemoved l" using assms that by (auto simp: all_saved_def list_all_iff)
    then show ?thesis by (simp add: printable_def)
  next
    case (Some i)
    with that show ?thesis by (rule nothing_left)
  qed
  then show ?thesis by (auto simp: list_ex_iff)
qed

lemma print_kot_saved:
  assumes "all_saved (items order)"
  shows "print_kot now order =
     (if list_ex (printable (kots order)) (items order)
      then Inr (\<lparr>kotNumber = length (kots order) + 1,
                  kot_items = expected_items (kots order) (items order),
                  printedAt = now, printedBy = ''Staff''\<rparr>,
                order\<lparr>kots := kots order
                   @ [\<lparr>kotNumber = length (kots order) + 1,
                       kot_items = expected_items (kots order) (items order),
                       printedAt = now, printedBy = ''Staff''\<rparr>]\<rparr>)
      else Inl NoNewItems)"
  using expected_items_empty_iff[OF assms, of "kots order"]
  by (simp add: print_kot_def itemsToPrint_saved[OF assms] Let_def)

lemma print_kot_unsaved:
  assumes "\<not> all_saved (items order)"
  shows "print_kot now order = Inl ServerError"
proof -
  have "\<And>pm. \<not> all_saved ls \<Longrightarrow> itemsToPrint pm ls = Inl ServerError" for ls
    by (induction ls) (auto simp: all_saved_def Let_def split: option.splits sum.splits)
  then show ?thesis using assms by (simp add: print_kot_def)
qed

lemma print_kot_twice:
  assumes "print_kot now order = Inr (newKot, order')"
  shows "print_kot now' order' = Inl NoNewItems"
proof -
  have saved: "all_saved (items order)"
    using assms print_kot_unsaved[of order now] by (cases "all_saved (items order)") auto
  let ?k = "\<lparr>kotNumber = length (kots order) + 1,
             kot_items = expected_items (kots order) (items order),
             printedAt = now, printedBy = ''Staff''\<rparr>"
  have o': "order' = order\<lparr>kots := kots order @ [?k]\<rparr>"
    using assms by (auto simp: print_kot_saved[OF saved] split: if_splits)
  have "\<not> list_ex (printable (kots order @ [?k\<lparr>kot_items := expected_items (kots order) (items order)\<rparr>])) (items order)"
    using saved by (rule nothing_left_all)
  then have "\<not> list_ex (printable (kots order')) (items order')"
    by (simp add: o')
  moreover have "all_saved (items order')" using saved by (simp add: o')
  ultimately show ?thesis by (simp add: print_kot_saved)
qed

section \<open>The update route: the saved order\<close>

lemma items_apply_history: "items (apply_history h order) = items order"
  by (simp add: apply_history_def Let_def)

lemma update_order_eq:
  "update_order now fresh isStaffEdit menuItemMap its newName newInstructions order =
     (if order_status order \<in> set [Paid, Cancelled] then Inl (TerminalState (order_status order))
      else if list_ex (\<lambda>item. req_quantity item < 1) its then Inl InvalidQuantity
      else if missing_items menuItemMap its \<noteq> [] then Inl (MenuItemsMissing (missing_items menuItemMap its))
      else Inr (updated_order now fresh isStaffEdit menuItemMap its newName newInstructions order))"
proof (cases "isUpdated order")
  case True
  then show ?thesis
    unfolding update_order_def updated_order_def reconciled_def Let_def case_prod_unfold
    by (simp add: items_apply_history)
next
  case False
  then show ?thesis
    unfolding update_order_def updated_order_def reconciled_def Let_def case_prod_unfold
    by (simp add: items_apply_history)
qed

lemma hasNewWork_nonempty: "hasNewWork h \<Longrightarrow> h \<noteq> []"
  by (auto simp: hasNewWork_def)

lemma apply_history_reopen:
  assumes "hasNewWork h" and "order_status order \<in> {Served, Ready, Preparing}"
  shows "order_status (apply_history h order) = Pending"
    and "hasUnseenChanges (apply_history h order)"
    and "updateHistory (apply_history h order) = updateHistory order @ h"
  using assms hasNewWork_nonempty[OF assms(1)]
  by (auto simp: apply_history_def Let_def)

lemma update_order_items:
  assumes "update_order now fresh isStaffEdit menuItemMap its newName newInstructions order = Inr order'"
  shows "items order' = assign_ids fresh (fst (reconciled isStaffEdit now menuItemMap its order))"
proof -
  have "order' = updated_order now fresh isStaffEdit menuItemMap its newName newInstructions order"
    using assms unfolding update_order_eq by (simp split: if_splits)
  then show ?thesis by (simp add: updated_order_def)
qed

section \<open>Customer reconciliation, key by key\<close>

lemma consolidate_step_new:
  "map_of m (req_key it) = None \<Longrightarrow>
   consolidate ((it, mi) # its) ex m
     = consolidate its ex
         (AList.update (req_key it) (consolidated_item mi (sort_req it) (map_of ex (req_key it))) m)"
  by (simp add: Let_def)

lemma consolidate_step_old:
  "map_of m (req_key it) = Some e \<Longrightarrow>
   consolidate ((it, mi) # its) ex m
     = consolidate its ex (AList.update (req_key it) (e\<lparr>quantity := quantity e + req_quantity it\<rparr>) m)"
  by (simp add: Let_def)

lemma map_of_consolidate:
  "map_of (consolidate its ex m) k =
     (case map_of m k of
        Some e \<Rightarrow> Some (e\<lparr>quantity := quantity e + desiredQty k its\<rparr>)
      | None \<Rightarrow>
          (case submitted k its of
             [] \<Rightarrow> None
           | (it, mi) # _ \<Rightarrow>
               Some ((consolidated_item mi (sort_req it) (map_of ex k))
                       \<lparr>quantity := desiredQty k its\<rparr>)))"
proof (induction its arbitrary: m)
  case Nil
  then show ?case by (simp add: desiredQty_def submitted_def split: option.splits)
next
  case (Cons p its)
  obtain it mi where p: "p = (it, mi)" by (cases p)
  have dq: "desiredQty k (p # its) = (if req_key it = k then req_quantity it else 0) + desiredQty k its"
    and sb: "submitted k (p # its) = (if req_key it = k then [(it, mi)] else []) @ submitted k its"
    by (simp_all add: p desiredQty_Cons submitted_def)
  show ?case
  proof (cases "map_of m (req_key it)")
    case None
    have "map_of (consolidate (p # its) ex m) k
            = map_of (consolidate its ex
                (AList.update (req_key it) (consolidated_item mi (sort_req it) (map_of ex (req_key it))) m)) k"
      using None by (simp only: p consolidate_step_new)
    also have "\<dots> = (case map_of m k of
        Some e \<Rightarrow> Some (e\<lparr>quantity := quantity e + desiredQty k (p # its)\<rparr>)
      | None \<Rightarrow>
          (case submitted k (p # its) of
             [] \<Rightarrow> None
           | (it, mi) # _ \<Rightarrow>
               Some ((consolidated_item mi (sort_req it) (map_of ex k))
                       \<lparr>quantity := desiredQty k (p # its)\<rparr>)))"
      unfolding Cons.IH dq sb using None
      by (cases "req_key it = k")
         (auto simp: update_conv' consolidated_item_def sort_req_def split: option.splits list.splits)
    finally show ?thesis .
  next
    case (Some e)
    have "map_of (consolidate (p # its) ex m) k
            = map_of (consolidate its ex
                (AList.update (req_key it) (e\<lparr>quantity := quantity e + req_quantity it\<rparr>) m)) k"
      using Some by (simp only: p consolidate_step_old)
    also have "\<dots> = (case map_of m k of
        Some e \<Rightarrow> Some (e\<lparr>quantity := quantity e + desiredQty k (p # its)\<rparr>)
      | None \<Rightarrow>
          (case submitted k (p # its) of
             [] \<Rightarrow> None
           | (it, mi) # _ \<Rightarrow>
               Some ((consolidated_item mi (sort_req it) (map_of ex k))
                       \<lparr>quantity := desiredQty k (p # its)\<rparr>)))"
      unfolding Cons.IH dq sb using Some
      by (cases "req_key it = k")
         (auto simp: update_conv' add.assoc split: option.splits list.splits)
    finally show ?thesis .
  qed
qed

lemma map_of_consolidated:
  "map_of (consolidate its ex []) k =
     (case submitted k its of
        [] \<Rightarrow> None
      | (it, mi) # _ \<Rightarrow>
          Some ((consolidated_item mi (sort_req it) (map_of ex k))\<lparr>quantity := desiredQty k its\<rparr>))"
  by (simp add: map_of_consolidate)

lemma distinct_consolidate:
  "distinct (map fst m) \<Longrightarrow> distinct (map fst (consolidate its ex m))"
proof (induction its arbitrary: m)
  case Nil
  then show ?case by simp
next
  case (Cons p its)
  obtain it mi where p: "p = (it, mi)" by (cases p)
  show ?case
    using Cons.prems
    by (auto simp: p Let_def distinct_update intro!: Cons.IH split: option.splits)
qed

lemma map_of_index_existing:
  "map_of (index_existing old m) k =
     (if lines_of_key k old = [] then map_of m k
      else Some (sort_line (last (lines_of_key k old))))"
proof (induction old arbitrary: m)
  case Nil
  then show ?case by (simp add: lines_of_key_def)
next
  case (Cons l old)
  show ?case
    by (simp add: Cons.IH update_conv' lines_of_key_def)
qed

lemma consolidated_entry_key:
  assumes "(k, c) \<in> set (consolidate its ex [])"
  shows "line_key c = k" and "\<not> isRemoved c" and "\<not> isNew c"
proof -
  have "distinct (map fst (consolidate its ex []))"
    by (rule distinct_consolidate) simp
  then have m: "map_of (consolidate its ex []) k = Some c"
    using assms by simp
  then obtain it mi rest where sub: "submitted k its = (it, mi) # rest"
    and c: "c = (consolidated_item mi (sort_req it) (map_of ex k))\<lparr>quantity := desiredQty k its\<rparr>"
    by (auto simp: map_of_consolidated split: list.splits)
  have "req_key it = k" using sub by (rule submitted_head)
  then show "line_key c = k"
    by (simp add: c consolidated_item_def line_key_def req_key_def sort_req_def sort_addons_idem)
  show "\<not> isRemoved c" "\<not> isNew c"
    by (simp_all add: c consolidated_item_def)
qed

lemma line_key_removed_copy: "line_key (removed_copy l) = line_key l"
  by (simp add: removed_copy_def line_key_def)

lemma find_key_sort_line:
  "find (\<lambda>old. line_key old = k) (map sort_line old)
     = map_option sort_line (find (\<lambda>old. line_key old = k) old)"
  by (induction old) (simp_all add: line_key_sort_line)

lemma find_lines_of_key:
  "find (\<lambda>old. line_key old = k) old
     = (case lines_of_key k old of [] \<Rightarrow> None | first # _ \<Rightarrow> Some first)"
  by (induction old) (simp_all add: lines_of_key_def)

lemma customer_change_fields:
  "line_key (fst (customer_change now olds c)) = line_key c"
  "item_id (fst (customer_change now olds c)) = item_id c"
  "status (fst (customer_change now olds c)) = status c"
  "quantity (fst (customer_change now olds c)) = quantity c"
  "isRemoved (fst (customer_change now olds c)) = isRemoved c"
  "item_total (fst (customer_change now olds c)) = item_total c"
  by (simp_all add: customer_change_def line_key_def item_total_def split: option.splits)

lemma find_sorted_first:
  "find (\<lambda>old. line_key old = k) (map sort_line old)
     = (case lines_of_key k old of [] \<Rightarrow> None | first # _ \<Rightarrow> Some (sort_line first))"
  by (simp add: find_key_sort_line) (simp add: find_lines_of_key split: list.splits)

lemma customer_change_isNew:
  assumes "\<not> isNew c"
  shows "isNew (fst (customer_change now (map sort_line old) c))
           \<longleftrightarrow> (case lines_of_key (line_key c) old of
                  [] \<Rightarrow> True
                | first # _ \<Rightarrow> quantity first < quantity c)"
proof (cases "lines_of_key (line_key c) old")
  case Nil
  then show ?thesis
    by (simp add: customer_change_def find_sorted_first)
next
  case (Cons first rest)
  then show ?thesis
    using assms by (simp add: customer_change_def find_sorted_first sort_line_def)
qed

lemma push_removed_shape:
  "\<exists>R. fst (push_removed now olds (ls, h)) = ls @ R
       \<and> (\<forall>r \<in> set R. isRemoved r \<and> line_key r \<notin> line_key ` set ls)"
proof (induction olds arbitrary: ls h)
  case Nil
  then show ?case by simp
next
  case (Cons oldItem rest)
  show ?case
  proof (cases "find (\<lambda>item. line_key item = line_key oldItem) ls")
    case (Some a)
    then show ?thesis using Cons.IH[of ls h] by simp
  next
    case None
    then have notin: "line_key oldItem \<notin> line_key ` set ls"
      by (auto simp: find_None_iff)
    from Cons.IH[of "ls @ [removed_copy oldItem]" "h @ [removed_event now (name oldItem) (quantity oldItem)]"]
    obtain R where R: "fst (push_removed now rest (ls @ [removed_copy oldItem],
                              h @ [removed_event now (name oldItem) (quantity oldItem)]))
                         = (ls @ [removed_copy oldItem]) @ R"
      and Rp: "\<forall>r \<in> set R. isRemoved r \<and> line_key r \<notin> line_key ` set (ls @ [removed_copy oldItem])"
      by blast
    have "fst (push_removed now (oldItem # rest) (ls, h)) = ls @ (removed_copy oldItem # R)"
      using None R by simp
    moreover have "\<forall>r \<in> set (removed_copy oldItem # R). isRemoved r \<and> line_key r \<notin> line_key ` set ls"
      using Rp notin by (auto simp: removed_copy_def line_key_def)
    ultimately show ?thesis by blast
  qed
qed

lemma push_removed_first:
  assumes "find (\<lambda>x. line_key x = k) olds = Some l" and "k \<notin> line_key ` set ls"
  shows "removed_copy l \<in> set (fst (push_removed now olds (ls, h)))"
  using assms
proof (induction olds arbitrary: ls h)
  case Nil
  then show ?case by simp
next
  case (Cons oldItem rest)
  show ?case
  proof (cases "line_key oldItem = k")
    case True
    then have l: "l = oldItem" using Cons.prems(1) by simp
    have "\<And>x. x \<in> set ls \<Longrightarrow> line_key x \<noteq> line_key oldItem"
      using Cons.prems(2) True by (metis imageI)
    then have none: "find (\<lambda>item. line_key item = line_key oldItem) ls = None"
      by (simp add: find_None_iff)
    obtain R where "fst (push_removed now rest (ls @ [removed_copy oldItem],
                              h @ [removed_event now (name oldItem) (quantity oldItem)]))
                         = (ls @ [removed_copy oldItem]) @ R"
      using push_removed_shape by blast
    then show ?thesis using none l by simp
  next
    case False
    then have f: "find (\<lambda>x. line_key x = k) rest = Some l"
      using Cons.prems(1) by simp
    show ?thesis
    proof (cases "find (\<lambda>item. line_key item = line_key oldItem) ls")
      case (Some a)
      then show ?thesis using Cons.IH[OF f Cons.prems(2), of h] by simp
    next
      case None
      have "k \<notin> line_key ` set (ls @ [removed_copy oldItem])"
        using Cons.prems(2) False by (auto simp: line_key_removed_copy)
      from Cons.IH[OF f this] show ?thesis using None by simp
    qed
  qed
qed

lemma customer_reconcile_shape:
  "\<exists>R. fst (customer_reconcile now old its)
           = map (\<lambda>c. fst (customer_change now (map sort_line old) c))
               (map snd (consolidate its (index_existing old []) [])) @ R
       \<and> (\<forall>r \<in> set R. isRemoved r
             \<and> line_key r \<notin> fst ` set (consolidate its (index_existing old []) []))"
proof -
  let ?cons = "consolidate its (index_existing old []) []"
  let ?start = "map (\<lambda>c. fst (customer_change now (map sort_line old) c)) (map snd ?cons)"
  let ?h = "concat (map snd (map (customer_change now (map sort_line old)) (map snd ?cons)))"
  have keys: "line_key ` set ?start = fst ` set ?cons"
    by (force simp: customer_change_fields(1) consolidated_entry_key(1) image_iff)
  have eq: "fst (customer_reconcile now old its) = fst (push_removed now (map sort_line old) (?start, ?h))"
    by (simp add: customer_reconcile_def Let_def case_prod_unfold comp_def)
  from push_removed_shape[of now "map sort_line old" ?start ?h]
  show ?thesis unfolding eq keys by blast
qed

lemma filter_map_keyed:
  assumes "distinct (map fst xs)"
    and "\<And>k' v. (k', v) \<in> set xs \<Longrightarrow> key (g v) = k'"
  shows "filter (\<lambda>l. key l = k) (map (\<lambda>p. g (snd p)) xs)
           = (case map_of xs k of None \<Rightarrow> [] | Some v \<Rightarrow> [g v])"
proof -
  have "map (\<lambda>p. g (snd p)) xs = concat (map (\<lambda>(k', v). [g v]) xs)"
    by (induction xs) auto
  moreover have "filter (\<lambda>l. key l = k) (concat (map (\<lambda>(k', v). [g v]) xs))
           = (case map_of xs k of None \<Rightarrow> [] | Some v \<Rightarrow> [g v])"
    using assms by (intro filter_concat_keyed) auto
  ultimately show ?thesis by simp
qed

lemma customer_lines_submitted:
  assumes "submitted k its = (it, mi) # rest"
  shows "customer_lines now old its k
           = [fst (customer_change now (map sort_line old)
                ((consolidated_item mi (sort_req it) (map_of (index_existing old []) k))
                   \<lparr>quantity := desiredQty k its\<rparr>))]"
proof -
  let ?ex = "index_existing old []"
  let ?cons = "consolidate its ?ex []"
  let ?c = "(consolidated_item mi (sort_req it) (map_of ?ex k))\<lparr>quantity := desiredQty k its\<rparr>"
  let ?g = "\<lambda>c. fst (customer_change now (map sort_line old) c)"
  have m: "map_of ?cons k = Some ?c"
    using assms by (simp add: map_of_consolidated)
  have d: "distinct (map fst ?cons)"
    by (rule distinct_consolidate) simp
  obtain R where post: "fst (customer_reconcile now old its) = map ?g (map snd ?cons) @ R"
    and R: "\<forall>r \<in> set R. isRemoved r \<and> line_key r \<notin> fst ` set ?cons"
    using customer_reconcile_shape by blast
  have kin: "k \<in> fst ` set ?cons"
    using m by (metis map_of_SomeD image_eqI fst_conv)
  have noR: "filter (\<lambda>l. line_key l = k) R = []"
    using R kin by (auto simp: filter_empty_conv)
  have "filter (\<lambda>l. line_key l = k) (map (\<lambda>p. ?g (snd p)) ?cons)
           = (case map_of ?cons k of None \<Rightarrow> [] | Some v \<Rightarrow> [?g v])"
    using d by (rule filter_map_keyed) (simp add: customer_change_fields(1) consolidated_entry_key(1))
  then have "filter (\<lambda>l. line_key l = k) (map ?g (map snd ?cons)) = [?g ?c]"
    by (simp add: m comp_def)
  then show ?thesis
    by (simp add: customer_lines_def lines_of_key_def post noR)
qed

lemma assign_ids_keep:
  "l \<in> set ls \<Longrightarrow> item_id l \<noteq> None \<Longrightarrow> l \<in> set (assign_ids fresh ls)"
  by (induction ls arbitrary: fresh) (auto split: option.splits)

lemma staff_line_retained:
  assumes "l \<in> set old" and "submitted (line_key l) its \<noteq> []"
  shows "\<exists>l' \<in> set (staff_lines now old its (line_key l)).
           l' = sort_line l \<or> l' = flag_removed (sort_line l)
           \<or> (\<exists>q'. 0 < q' \<and> q' < quantity l \<and> l' = (sort_line l)\<lparr>quantity := q'\<rparr>)"
proof -
  let ?k = "line_key l"
  obtain it mi rest where sub: "submitted ?k its = (it, mi) # rest"
    using assms(2) by (cases "submitted ?k its") auto
  have mem: "sort_line l \<in> set (map sort_line (lines_of_key ?k old))"
    using assms(1) by (simp add: lines_of_key_def)
  let ?E = "total_quantity (lines_of_key ?k old)"
  let ?q = "desiredQty ?k its"
  consider "?q = ?E" | "?q > ?E" | "?q < ?E" by linarith
  then show ?thesis
  proof cases
    case 1
    then have "staff_lines now old its ?k = map sort_line (lines_of_key ?k old)"
      by (simp add: staff_lines_key_result staff_key_result_same[OF sub])
    then show ?thesis using mem by auto
  next
    case 2
    then have "set (map sort_line (lines_of_key ?k old)) \<subseteq> set (staff_lines now old its ?k)"
      by (auto simp: staff_lines_key_result staff_key_result_more[OF sub])
    then show ?thesis using mem by auto
  next
    case 3
    let ?S = "sortedExisting ?k old"
    let ?r = "?E - ?q"
    have post: "staff_lines now old its ?k = remove_from ?r ?S"
      using 3 by (simp add: staff_lines_key_result staff_key_result_less[OF sub])
    have "sort_line l \<in> set ?S"
      using mem by (simp add: sortedExisting_def)
    then obtain i where i: "i < length ?S" and si: "?S ! i = sort_line l"
      by (auto simp: in_set_conv_nth)
    have in_post: "remove_from ?r ?S ! i \<in> set (staff_lines now old its ?k)"
      unfolding post using i by (simp add: length_remove_from)
    have q: "quantity (sort_line l) = quantity l"
      by (simp add: sort_line_def)
    from remove_from_pointwise[OF i, of ?r]
    have "remove_from ?r ?S ! i = sort_line l
          \<or> remove_from ?r ?S ! i = flag_removed (sort_line l)
          \<or> (\<exists>q'. 0 < q' \<and> q' < quantity l \<and> remove_from ?r ?S ! i = (sort_line l)\<lparr>quantity := q'\<rparr>)"
      unfolding si q .
    then show ?thesis using in_post by blast
  qed
qed

lemma consolidated_key_submitted:
  assumes "k \<in> fst ` set (consolidate its ex [])"
  shows "submitted k its \<noteq> []"
proof -
  obtain c where "(k, c) \<in> set (consolidate its ex [])" using assms by auto
  moreover have "distinct (map fst (consolidate its ex []))"
    by (rule distinct_consolidate) simp
  ultimately have "map_of (consolidate its ex []) k = Some c" by simp
  then show ?thesis by (auto simp: map_of_consolidated)
qed

lemma customer_line_retained:
  assumes "find (\<lambda>x. line_key x = k) old = Some l" and "submitted k its = []"
  shows "removed_copy (sort_line l) \<in> set (fst (customer_reconcile now old its))"
proof -
  let ?cons = "consolidate its (index_existing old []) []"
  let ?start = "map (\<lambda>c. fst (customer_change now (map sort_line old) c)) (map snd ?cons)"
  let ?h = "concat (map snd (map (customer_change now (map sort_line old)) (map snd ?cons)))"
  have keys: "line_key ` set ?start = fst ` set ?cons"
    by (force simp: customer_change_fields(1) consolidated_entry_key(1) image_iff)
  have eq: "fst (customer_reconcile now old its) = fst (push_removed now (map sort_line old) (?start, ?h))"
    by (simp add: customer_reconcile_def Let_def case_prod_unfold comp_def)
  have f: "find (\<lambda>x. line_key x = k) (map sort_line old) = Some (sort_line l)"
    using assms(1) by (simp add: find_key_sort_line)
  have "k \<notin> line_key ` set ?start"
    unfolding keys using assms(2) consolidated_key_submitted by blast
  with f show ?thesis unfolding eq by (rule push_removed_first)
qed

section \<open>Totals of order creation and of the customer branch\<close>

text \<open>The price of a line is \<open>price \<times> quantity + (\<Sum> addon prices) \<times> quantity\<close>, a bare
  addon name counting zero. Order creation and the customer branch save the sum over the lines
  not flagged \<open>isRemoved\<close>, rounded once.\<close>

lemma item_total_formula:
  "item_total item
     = price item * of_int (quantity item)
       + sum_list (map addon_price (addons item)) * of_int (quantity item)"
  by (simp add: item_total_def calculateAddonPrice_def foldl_add_sum_list)

lemma items_total_sum: "items_total ls = sum_list (map item_total ls)"
  by (simp add: items_total_def foldl_add_sum_list)

lemma active_total_assign_ids: "active_total (assign_ids fresh ls) = active_total ls"
  by (induction ls arbitrary: fresh)
     (auto simp: active_total_def item_total_def split: option.splits)

lemma placeOrder_total:
  assumes "placeOrder fresh menuItemMap its newName newInstructions = Inr order"
  shows "totalPrice order = round2 (active_total (items order))"
proof -
  let ?ls = "map created_item (resolve_items menuItemMap its)"
  have o: "totalPrice order = round2 (items_total ?ls)" "items order = assign_ids fresh ?ls"
    using assms by (auto simp: placeOrder_def Let_def split: if_splits)
  have "filter (\<lambda>l. \<not> isRemoved l) ?ls = ?ls"
    by (auto simp: filter_id_conv created_item_def split: prod.splits)
  then have "active_total ?ls = items_total ?ls"
    by (simp add: active_total_def items_total_sum)
  then show ?thesis
    by (simp add: o active_total_assign_ids)
qed

lemma customer_reconcile_total:
  "snd (snd (customer_reconcile now old its)) = active_total (fst (customer_reconcile now old its))"
proof -
  let ?cons = "map snd (consolidate its (index_existing old []) [])"
  let ?g = "\<lambda>c. fst (customer_change now (map sort_line old) c)"
  obtain R where post: "fst (customer_reconcile now old its) = map ?g ?cons @ R"
    and R: "\<forall>r \<in> set R. isRemoved r \<and> line_key r \<notin> fst ` set (consolidate its (index_existing old []) [])"
    using customer_reconcile_shape by blast
  have nr: "\<forall>c \<in> set ?cons. \<not> isRemoved c"
    using consolidated_entry_key(2) by fastforce
  have "filter (\<lambda>l. \<not> isRemoved l) (map ?g ?cons) = map ?g ?cons"
    using nr by (auto simp: filter_id_conv customer_change_fields(5))
  moreover have "filter (\<lambda>l. \<not> isRemoved l) R = []"
    using R by (auto simp: filter_empty_conv)
  ultimately have "active_total (fst (customer_reconcile now old its))
                     = sum_list (map item_total (map ?g ?cons))"
    by (simp add: active_total_def post)
  also have "\<dots> = items_total ?cons"
    by (simp add: items_total_sum comp_def customer_change_fields(6))
  also have "\<dots> = snd (snd (customer_reconcile now old its))"
    by (simp add: customer_reconcile_def Let_def case_prod_unfold)
  finally show ?thesis by simp
qed

lemma customer_update_total:
  assumes "update_order now fresh False menuItemMap its newName newInstructions order = Inr order'"
  shows "totalPrice order' = round2 (active_total (items order'))"
proof -
  have o': "order' = updated_order now fresh False menuItemMap its newName newInstructions order"
    using assms unfolding update_order_eq by (simp split: if_splits)
  have t: "totalPrice order' = round2 (snd (snd (reconciled False now menuItemMap its order)))"
    unfolding o' updated_order_def by (simp add: apply_history_def Let_def)
  have i: "items order' = assign_ids fresh (fst (reconciled False now menuItemMap its order))"
    using assms by (rule update_order_items)
  show ?thesis
    unfolding t i active_total_assign_ids
    by (simp add: reconciled_def reconcile_def customer_reconcile_total)
qed

section \<open>A key absent from a staff submission\<close>

text \<open>The staff branch only visits the keys of \<open>incomingMap\<close>: the lines of a key that is
  not submitted are neither pushed nor logged.\<close>

lemma staff_absent_key_dropped:
  "(case update_order 5 900 True example_menu [fries_req 1] None None dropped_order of
      Inl e \<Rightarrow> False
    | Inr order' \<Rightarrow> items order' = [fries_line 102 1 Pending] \<and> updateHistory order' = [])"
  by code_simp

section \<open>The ids of a saved item list\<close>

text \<open>A line of the reconciled list has no id or the id of an old line; saving gives the
  lines without id the ids from \<open>fresh\<close> on and leaves the other lines as they are.\<close>

lemma assign_ids_fresh:
  "l \<in> set ls \<Longrightarrow> item_id l = None
     \<Longrightarrow> \<exists>n \<ge> fresh. l\<lparr>item_id := Some n\<rparr> \<in> set (assign_ids fresh ls)"
proof (induction ls arbitrary: fresh)
  case Nil
  then show ?case by simp
next
  case (Cons x ls)
  show ?case
  proof (cases "l = x")
    case True
    then have "l\<lparr>item_id := Some fresh\<rparr> \<in> set (assign_ids fresh (x # ls))"
      using Cons.prems(2) by simp
    then show ?thesis by blast
  next
    case False
    then have l: "l \<in> set ls" using Cons.prems(1) by simp
    show ?thesis
    proof (cases "item_id x")
      case None
      obtain n where "n \<ge> Suc fresh" "l\<lparr>item_id := Some n\<rparr> \<in> set (assign_ids (Suc fresh) ls)"
        using Cons.IH[OF l Cons.prems(2), of "Suc fresh"] by blast
      then have "n \<ge> fresh \<and> l\<lparr>item_id := Some n\<rparr> \<in> set (assign_ids fresh (x # ls))"
        using None by simp
      then show ?thesis by blast
    next
      case (Some i)
      obtain n where "n \<ge> fresh" "l\<lparr>item_id := Some n\<rparr> \<in> set (assign_ids fresh ls)"
        using Cons.IH[OF l Cons.prems(2), of fresh] by blast
      then have "n \<ge> fresh \<and> l\<lparr>item_id := Some n\<rparr> \<in> set (assign_ids fresh (x # ls))"
        using Some by simp
      then show ?thesis by blast
    qed
  qed
qed

lemma assign_ids_origin:
  "l' \<in> set (assign_ids fresh ls)
     \<Longrightarrow> (l' \<in> set ls \<and> item_id l' \<noteq> None) \<or> (\<exists>n \<ge> fresh. item_id l' = Some n)"
proof (induction ls arbitrary: fresh)
  case Nil
  then show ?case by simp
next
  case (Cons x ls)
  show ?case
  proof (cases "item_id x")
    case None
    then have "l' = x\<lparr>item_id := Some fresh\<rparr> \<or> l' \<in> set (assign_ids (Suc fresh) ls)"
      using Cons.prems by simp
    then show ?thesis
    proof
      assume "l' = x\<lparr>item_id := Some fresh\<rparr>"
      then have "fresh \<ge> fresh \<and> item_id l' = Some fresh" by simp
      then show ?thesis by blast
    next
      assume "l' \<in> set (assign_ids (Suc fresh) ls)"
      from Cons.IH[OF this] show ?thesis
        by (metis Suc_leD list.set_intros(2))
    qed
  next
    case (Some i)
    then have "l' = x \<or> l' \<in> set (assign_ids fresh ls)"
      using Cons.prems by simp
    then show ?thesis
    proof
      assume "l' = x"
      then show ?thesis using Some by simp
    next
      assume "l' \<in> set (assign_ids fresh ls)"
      from Cons.IH[OF this] show ?thesis
        by (metis list.set_intros(2))
    qed
  qed
qed

lemma map_item_id_remove_from: "map item_id (remove_from r ls) = map item_id ls"
  by (induction ls arbitrary: r) simp_all

lemma staff_reconcile_key_ids:
  assumes "l' \<in> set (fst (staff_reconcile_key now ex inc))"
  shows "item_id l' = None \<or> item_id l' \<in> item_id ` set ex"
proof -
  obtain q d mi where inc: "inc = (q, d, mi)" by (cases inc)
  from assms consider "l' \<in> set ex" | "l' = new_pending_item mi d (q - total_quantity ex)"
    | r where "l' \<in> set (remove_from r (sort_key (\<lambda>i. statusPriority (status i)) ex))"
    unfolding inc staff_reconcile_key_cases by (auto split: if_splits)
  then show ?thesis
  proof cases
    case 1
    then show ?thesis by simp
  next
    case 2
    then show ?thesis by (simp add: new_pending_item_def)
  next
    case 3
    then have "item_id l' \<in> set (map item_id (remove_from r (sort_key (\<lambda>i. statusPriority (status i)) ex)))"
      by simp
    then have "item_id l' \<in> item_id ` set ex"
      unfolding map_item_id_remove_from by simp
    then show ?thesis by simp
  qed
qed

lemma staff_reconcile_ids:
  assumes "l' \<in> set (fst (staff_reconcile now old its))"
  shows "item_id l' = None \<or> item_id l' \<in> item_id ` set old"
proof -
  from assms obtain k where "l' \<in> set (fst (staff_key_result now old its k))"
    unfolding staff_reconcile_by_key(1) by auto
  then obtain inc where
    "l' \<in> set (fst (staff_reconcile_key now (map sort_line (lines_of_key k old)) inc))"
    by (auto simp: staff_key_result_def existing_for_grouped split: option.splits)
  from staff_reconcile_key_ids[OF this]
  show ?thesis by (auto simp: lines_of_key_def sort_line_def)
qed

lemma push_removed_ids:
  "l' \<in> set (fst (push_removed now olds (ls, h))) \<Longrightarrow> l' \<in> set ls \<or> item_id l' = None"
proof (induction olds arbitrary: ls h)
  case Nil
  then show ?case by simp
next
  case (Cons oldItem rest)
  show ?case
  proof (cases "find (\<lambda>item. line_key item = line_key oldItem) ls")
    case None
    then have "l' \<in> set (fst (push_removed now rest
                 (ls @ [removed_copy oldItem],
                  h @ [removed_event now (name oldItem) (quantity oldItem)])))"
      using Cons.prems by simp
    from Cons.IH[OF this] show ?thesis by (auto simp: removed_copy_def)
  next
    case (Some a)
    then have "l' \<in> set (fst (push_removed now rest (ls, h)))"
      using Cons.prems by simp
    from Cons.IH[OF this] show ?thesis .
  qed
qed

lemma customer_reconcile_ids:
  assumes "l' \<in> set (fst (customer_reconcile now old its))"
  shows "item_id l' = None \<or> item_id l' \<in> item_id ` set old"
proof -
  let ?ex = "index_existing old []"
  let ?cons = "consolidate its ?ex []"
  let ?start = "map (\<lambda>c. fst (customer_change now (map sort_line old) c)) (map snd ?cons)"
  let ?h = "concat (map snd (map (customer_change now (map sort_line old)) (map snd ?cons)))"
  have eq: "fst (customer_reconcile now old its) = fst (push_removed now (map sort_line old) (?start, ?h))"
    by (simp add: customer_reconcile_def Let_def case_prod_unfold comp_def)
  have "l' \<in> set ?start \<or> item_id l' = None"
    using assms unfolding eq by (rule push_removed_ids)
  then show ?thesis
  proof
    assume "l' \<in> set ?start"
    then obtain k c where kc: "(k, c) \<in> set ?cons"
      and l': "l' = fst (customer_change now (map sort_line old) c)"
      by auto
    have "distinct (map fst ?cons)" by (rule distinct_consolidate) simp
    then have "map_of ?cons k = Some c" using kc by simp
    then obtain it mi where
      c: "c = (consolidated_item mi (sort_req it) (map_of ?ex k))\<lparr>quantity := desiredQty k its\<rparr>"
      by (auto simp: map_of_consolidated split: list.splits)
    have id: "item_id l' = (case map_of ?ex k of None \<Rightarrow> None | Some e \<Rightarrow> item_id e)"
      by (simp add: l' customer_change_fields(2) c consolidated_item_def)
    show ?thesis
    proof (cases "lines_of_key k old = []")
      case True
      then show ?thesis by (simp add: id map_of_index_existing)
    next
      case False
      then have "last (lines_of_key k old) \<in> set old"
        using last_in_set[OF False] by (auto simp: lines_of_key_def)
      then show ?thesis
        using False by (simp add: id map_of_index_existing sort_line_def)
    qed
  next
    assume "item_id l' = None"
    then show ?thesis by simp
  qed
qed

lemma reconcile_ids:
  assumes "l' \<in> set (fst (reconcile isStaffEdit now old its))"
  shows "item_id l' = None \<or> item_id l' \<in> item_id ` set old"
  using assms staff_reconcile_ids customer_reconcile_ids
  by (auto simp: reconcile_def split: if_splits)

lemma flagged_not_carried:
  assumes "update_order now fresh isStaffEdit menuItemMap its newName newInstructions order = Inr order'"
    and "ids_in_use fresh (items order)"
    and "r \<in> set (items order)" and "isRemoved r" and "l' \<in> set (items order')"
  shows "item_id l' \<noteq> item_id r"
proof
  assume eq: "item_id l' = item_id r"
  let ?old = "filter (\<lambda>item. \<not> isRemoved item) (items order)"
  obtain i where i: "item_id r = Some i" "i < fresh"
    using assms(2,3) by (auto simp: ids_in_use_def list_all_iff split: option.splits)
  have post: "items order' = assign_ids fresh (fst (reconciled isStaffEdit now menuItemMap its order))"
    using assms(1) by (rule update_order_items)
  from assign_ids_origin[OF assms(5)[unfolded post]]
  have "l' \<in> set (fst (reconciled isStaffEdit now menuItemMap its order)) \<and> item_id l' \<noteq> None"
    using eq i by auto
  then have "item_id l' \<in> item_id ` set ?old"
    using reconcile_ids[of l' isStaffEdit now ?old "resolve_items menuItemMap its"]
    by (auto simp: reconciled_def)
  then obtain l0 where l0: "l0 \<in> set (items order)" "\<not> isRemoved l0" "item_id l0 = item_id r"
    using eq by auto
  have "inj_on item_id (set (items order))"
    using assms(2) by (simp add: ids_in_use_def distinct_map)
  then have "l0 = r" using l0(1,3) assms(3) by (auto dest: inj_onD)
  then show False using l0(2) assms(4) by simp
qed

section \<open>Quantity conservation under the staff policy\<close>

text \<open>
  Claim C1 states that for every key the quantities of the lines of the key after a staff
  reconciliation, lines flagged \<open>isRemoved\<close> included, sum to
  \<open>max existingTotalQty desiredQty\<close>. The code reduces a line in place when the deficit
  does not consume it, so after a decrease the sum is below the existing total: with one line
  of quantity 3 and a submission of 2 the sum is 2, not 3.
\<close>

theorem staff_quantity_conservation_counterexample:
  "total_quantity (staff_lines 0 [burger_line 101 3 Preparing] [(burger_req 2, burger)] burger_key)
     \<noteq> max (total_quantity (lines_of_key burger_key [burger_line 101 3 Preparing]))
           (desiredQty burger_key [(burger_req 2, burger)])"
  by code_simp

text \<open>
  Claim C1 as amended: for every staff reconciliation of lines not flagged \<open>isRemoved\<close>
  against validated items (quantities at least 1) and for every key that is submitted, the
  lines of the key that are not flagged \<open>isRemoved\<close> sum to \<open>desiredQty\<close>; with the
  flagged lines included the sum is at most \<open>max existingTotalQty desiredQty\<close>, and equal
  to it whenever \<open>desiredQty\<close> is at least \<open>existingTotalQty\<close>.
\<close>

theorem staff_quantity_conservation:
  assumes "\<forall>l \<in> set oldItems. \<not> isRemoved l"
    and "\<forall>p \<in> set its. 1 \<le> req_quantity (fst p)"
    and "submitted k its \<noteq> []"
  shows "active_quantity (staff_lines now oldItems its k) = desiredQty k its
       \<and> total_quantity (staff_lines now oldItems its k)
            \<le> max (total_quantity (lines_of_key k oldItems)) (desiredQty k its)
       \<and> (total_quantity (lines_of_key k oldItems) \<le> desiredQty k its \<longrightarrow>
            total_quantity (staff_lines now oldItems its k)
              = max (total_quantity (lines_of_key k oldItems)) (desiredQty k its))"
proof (cases "total_quantity (lines_of_key k oldItems) \<le> desiredQty k its")
  case True
  then show ?thesis
    using staff_quantities(1,2)[OF assms, of now] by (simp add: max_def)
next
  case False
  then show ?thesis
    using staff_quantities(1)[OF assms, of now] staff_quantities(3)[OF assms, of now]
    by (simp add: max_def)
qed

theorem staff_quantity_conservation_witness:
  "active_quantity (staff_lines 0 [burger_line 101 3 Preparing] [(burger_req 2, burger)] burger_key) = 2
   \<and> total_quantity (staff_lines 0 [burger_line 101 3 Preparing] [(burger_req 5, burger)] burger_key) = 5"
proof -
  have old: "\<forall>l \<in> set [burger_line 101 3 Preparing]. \<not> isRemoved l"
    by (simp add: burger_line_def)
  have q2: "\<forall>p \<in> set [(burger_req 2, burger)]. 1 \<le> req_quantity (fst p)"
    and q5: "\<forall>p \<in> set [(burger_req 5, burger)]. 1 \<le> req_quantity (fst p)"
    by (simp_all add: burger_req_def)
  have s2: "submitted burger_key [(burger_req 2, burger)] \<noteq> []"
    and s5: "submitted burger_key [(burger_req 5, burger)] \<noteq> []"
    by code_simp+
  have d2: "desiredQty burger_key [(burger_req 2, burger)] = 2"
    and d5: "desiredQty burger_key [(burger_req 5, burger)] = 5"
    and e: "total_quantity (lines_of_key burger_key [burger_line 101 3 Preparing]) = 3"
    by code_simp+
  show ?thesis
    using staff_quantity_conservation[OF old q2 s2, of 0]
      staff_quantity_conservation[OF old q5 s5, of 0]
    by (simp add: d2 d5 e)
qed

section \<open>Retention of lines\<close>

text \<open>
  Claim C2 states that every line present in the items of the order before an edit is still
  present after it, lines flagged \<open>isRemoved\<close> by an earlier edit included. The route
  reconciles \<open>oldItems = order.items.filter(item => !item.isRemoved)\<close> and then assigns
  \<open>order.items = newOrderItems\<close>, and the customer branch pushes for a line whose key is
  no longer submitted a new object without \<open>_id\<close> and \<open>status\<close>, once per key.
  With a burger line 101 flagged by an earlier edit, two cheese fries lines, 103 in
  preparation with quantity 1 and 104 pending with quantity 2, and a fries line 102, a
  customer submission of the fries alone leaves the fries line 102 and one line 900, pending
  and flagged removed, with the cheese fries of line 103: none of the lines 101, 103 and 104
  is in the list.
\<close>

theorem lines_retained_counterexample:
  "(case update_order 5 900 False example_menu [fries_req 1] None None flagged_order of
      Inl e \<Rightarrow> False
    | Inr order' \<Rightarrow>
        items order' = [fries_line 102 1 Pending,
                        (cheese_fries_line 900 1 Pending)\<lparr>isRemoved := True\<rparr>])
   \<and> items flagged_order
       = [flag_removed (burger_line 101 1 Pending), cheese_fries_line 103 1 Preparing,
          cheese_fries_line 104 2 Pending, fries_line 102 1 Pending]"
  by code_simp

text \<open>
  Claim C2 as amended, for every update that the route accepts on a saved order (every line
  has an id, the ids are pairwise distinct and below the first id not in use). Customer
  policy: for every key of a line not flagged \<open>isRemoved\<close> before the edit that is absent
  from the submission, the saved list holds a line with \<open>isRemoved = True\<close> and
  \<open>isNew = False\<close> that carries the menu item, name, price, quantity, addons (up to
  their order) and special instructions of the first such line of the key, with status
  pending and an id that no line had before the edit. Staff policy: every line not flagged
  \<open>isRemoved\<close> before the edit whose key is submitted is still in the saved list under
  the same id, status, menu item, name, price, special instructions and addons (up to their
  order), either with the same quantity and flags, or with the same quantity and
  \<open>isRemoved = True\<close>, \<open>isNew = False\<close>, or with a smaller positive quantity and the
  same flags. Both policies: no line of the saved list carries the id of a line that was
  flagged \<open>isRemoved\<close> before the edit.
\<close>

theorem lines_retained:
  assumes "update_order now fresh isStaffEdit menuItemMap its newName newInstructions order = Inr order'"
    and "ids_in_use fresh (items order)"
  shows "(\<not> isStaffEdit \<longrightarrow>
           (\<forall>k l. find (\<lambda>x. line_key x = k) (filter (\<lambda>item. \<not> isRemoved item) (items order)) = Some l
                  \<and> submitted k (resolve_items menuItemMap its) = []
              \<longrightarrow> (\<exists>l' \<in> set (items order').
                     isRemoved l' \<and> \<not> isNew l' \<and> status l' = Pending
                     \<and> menuItemId l' = menuItemId l \<and> name l' = name l \<and> price l' = price l
                     \<and> quantity l' = quantity l \<and> mset (addons l') = mset (addons l)
                     \<and> specialInstructions l' = specialInstructions l
                     \<and> item_id l' \<noteq> None
                     \<and> (\<forall>l0 \<in> set (items order). item_id l0 \<noteq> item_id l'))))
       \<and> (isStaffEdit \<longrightarrow>
           (\<forall>l \<in> set (items order).
              \<not> isRemoved l \<and> submitted (line_key l) (resolve_items menuItemMap its) \<noteq> []
              \<longrightarrow> (\<exists>l' \<in> set (items order').
                     item_id l' = item_id l \<and> status l' = status l
                     \<and> menuItemId l' = menuItemId l \<and> name l' = name l \<and> price l' = price l
                     \<and> mset (addons l') = mset (addons l)
                     \<and> specialInstructions l' = specialInstructions l
                     \<and> (quantity l' = quantity l \<and> \<not> isRemoved l' \<and> isNew l' = isNew l
                          \<or> quantity l' = quantity l \<and> isRemoved l' \<and> \<not> isNew l'
                          \<or> 0 < quantity l' \<and> quantity l' < quantity l
                              \<and> \<not> isRemoved l' \<and> isNew l' = isNew l))))
       \<and> (\<forall>r \<in> set (items order). isRemoved r \<longrightarrow>
             (\<forall>l' \<in> set (items order'). item_id l' \<noteq> item_id r))"
proof -
  let ?old = "filter (\<lambda>item. \<not> isRemoved item) (items order)"
  let ?its = "resolve_items menuItemMap its"
  have post: "items order' = assign_ids fresh (fst (reconciled isStaffEdit now menuItemMap its order))"
    using assms(1) by (rule update_order_items)
  have below: "\<And>l0 n. l0 \<in> set (items order) \<Longrightarrow> n \<ge> fresh \<Longrightarrow> item_id l0 \<noteq> Some n"
    using assms(2) by (fastforce simp: ids_in_use_def list_all_iff split: option.splits)
  have has_id: "\<And>l0. l0 \<in> set (items order) \<Longrightarrow> item_id l0 \<noteq> None"
    using assms(2) by (auto simp: ids_in_use_def list_all_iff split: option.splits)
  have cust: "\<exists>l' \<in> set (items order').
                     isRemoved l' \<and> \<not> isNew l' \<and> status l' = Pending
                     \<and> menuItemId l' = menuItemId l \<and> name l' = name l \<and> price l' = price l
                     \<and> quantity l' = quantity l \<and> mset (addons l') = mset (addons l)
                     \<and> specialInstructions l' = specialInstructions l
                     \<and> item_id l' \<noteq> None
                     \<and> (\<forall>l0 \<in> set (items order). item_id l0 \<noteq> item_id l')"
    if "\<not> isStaffEdit" "find (\<lambda>x. line_key x = k) ?old = Some l" "submitted k ?its = []" for k l
  proof -
    let ?c = "removed_copy (sort_line l)"
    have "?c \<in> set (fst (customer_reconcile now ?old ?its))"
      using that(2,3) by (rule customer_line_retained)
    then have mem: "?c \<in> set (fst (reconciled isStaffEdit now menuItemMap its order))"
      using that(1) by (simp add: reconciled_def reconcile_def)
    have "item_id ?c = None"
      by (simp add: removed_copy_def)
    from assign_ids_fresh[OF mem this, of fresh]
    obtain n where n: "n \<ge> fresh" "?c\<lparr>item_id := Some n\<rparr> \<in> set (items order')"
      unfolding post by blast
    have fields: "isRemoved (?c\<lparr>item_id := Some n\<rparr>) \<and> \<not> isNew (?c\<lparr>item_id := Some n\<rparr>)
        \<and> status (?c\<lparr>item_id := Some n\<rparr>) = Pending
        \<and> menuItemId (?c\<lparr>item_id := Some n\<rparr>) = menuItemId l
        \<and> name (?c\<lparr>item_id := Some n\<rparr>) = name l \<and> price (?c\<lparr>item_id := Some n\<rparr>) = price l
        \<and> quantity (?c\<lparr>item_id := Some n\<rparr>) = quantity l
        \<and> mset (addons (?c\<lparr>item_id := Some n\<rparr>)) = mset (addons l)
        \<and> specialInstructions (?c\<lparr>item_id := Some n\<rparr>) = specialInstructions l"
      by (simp add: removed_copy_def sort_line_def sort_addons_def)
    have "\<forall>l0 \<in> set (items order). item_id l0 \<noteq> item_id (?c\<lparr>item_id := Some n\<rparr>)"
      using below n(1) by simp
    moreover have "item_id (?c\<lparr>item_id := Some n\<rparr>) \<noteq> None"
      by simp
    ultimately show ?thesis using n(2) fields by blast
  qed
  have staff: "\<exists>l' \<in> set (items order').
                     item_id l' = item_id l \<and> status l' = status l
                     \<and> menuItemId l' = menuItemId l \<and> name l' = name l \<and> price l' = price l
                     \<and> mset (addons l') = mset (addons l)
                     \<and> specialInstructions l' = specialInstructions l
                     \<and> (quantity l' = quantity l \<and> \<not> isRemoved l' \<and> isNew l' = isNew l
                          \<or> quantity l' = quantity l \<and> isRemoved l' \<and> \<not> isNew l'
                          \<or> 0 < quantity l' \<and> quantity l' < quantity l
                              \<and> \<not> isRemoved l' \<and> isNew l' = isNew l)"
    if "isStaffEdit" "l \<in> set (items order)" "\<not> isRemoved l" "submitted (line_key l) ?its \<noteq> []" for l
  proof -
    have "l \<in> set ?old" using that(2,3) by simp
    from staff_line_retained[OF this that(4), of now]
    obtain l' where in_lines: "l' \<in> set (staff_lines now ?old ?its (line_key l))"
      and form: "l' = sort_line l \<or> l' = flag_removed (sort_line l)
           \<or> (\<exists>q'. 0 < q' \<and> q' < quantity l \<and> l' = (sort_line l)\<lparr>quantity := q'\<rparr>)"
      by blast
    have same: "item_id l' = item_id l \<and> status l' = status l
                     \<and> menuItemId l' = menuItemId l \<and> name l' = name l \<and> price l' = price l
                     \<and> mset (addons l') = mset (addons l)
                     \<and> specialInstructions l' = specialInstructions l"
      using form by (auto simp: sort_line_def flag_removed_def sort_addons_def)
    have qty: "quantity l' = quantity l \<and> \<not> isRemoved l' \<and> isNew l' = isNew l
                          \<or> quantity l' = quantity l \<and> isRemoved l' \<and> \<not> isNew l'
                          \<or> 0 < quantity l' \<and> quantity l' < quantity l
                              \<and> \<not> isRemoved l' \<and> isNew l' = isNew l"
      using form that(3) by (auto simp: sort_line_def flag_removed_def)
    have "l' \<in> set (fst (staff_reconcile now ?old ?its))"
      using in_lines by (simp add: staff_lines_def lines_of_key_def)
    moreover have "item_id l' \<noteq> None"
      using same has_id[OF that(2)] by simp
    ultimately have "l' \<in> set (items order')"
      unfolding post using that(1)
      by (simp add: reconciled_def reconcile_def assign_ids_keep)
    then show ?thesis using same qty by blast
  qed
  have flagged: "\<forall>r \<in> set (items order). isRemoved r \<longrightarrow>
             (\<forall>l' \<in> set (items order'). item_id l' \<noteq> item_id r)"
    using flagged_not_carried[OF assms] by blast
  show ?thesis
    using cust staff flagged by blast
qed

theorem lines_retained_witness:
  "list_ex (\<lambda>l'. isRemoved l' \<and> status l' = Pending \<and> menuItemId l' = 8 \<and> quantity l' = 1
                  \<and> mset (addons l') = mset [AddonStr ''Cheese''] \<and> item_id l' \<noteq> Some 103)
     (items (projr (update_order 5 900 False example_menu [fries_req 1] None None flagged_order)))
   \<and> \<not> list_ex (\<lambda>l'. item_id l' = Some 101)
       (items (projr (update_order 5 900 False example_menu [fries_req 1] None None flagged_order)))
   \<and> list_ex (\<lambda>l'. item_id l' = Some 101 \<and> status l' = Pending \<and> quantity l' = 1 \<and> isRemoved l')
       (items (projr (update_order 5 900 True example_menu [burger_req 1] None None bug_order)))"
proof -
  let ?c = "update_order 5 900 False example_menu [fries_req 1] None None flagged_order"
  let ?s = "update_order 5 900 True example_menu [burger_req 1] None None bug_order"
  let ?cheese = "cheese_fries_line 103 1 Preparing"
  let ?flagged = "flag_removed (burger_line 101 1 Pending)"
  let ?pending = "burger_line 101 1 Pending"
  have "\<not> isl ?c" by code_simp
  then have hc: "?c = Inr (projr ?c)" by (cases ?c) simp_all
  have "\<not> isl ?s" by code_simp
  then have hs: "?s = Inr (projr ?s)" by (cases ?s) simp_all
  have ic: "ids_in_use 900 (items flagged_order)" and ib: "ids_in_use 900 (items bug_order)"
    by code_simp+
  note rc = lines_retained[OF hc ic]
  note rs = lines_retained[OF hs ib]
  have f: "find (\<lambda>x. line_key x = line_key ?cheese)
             (filter (\<lambda>item. \<not> isRemoved item) (items flagged_order)) = Some ?cheese"
    by code_simp
  have n: "submitted (line_key ?cheese) (resolve_items example_menu [fries_req 1]) = []"
    by code_simp
  have mem: "?cheese \<in> set (items flagged_order)" "?flagged \<in> set (items flagged_order)"
    "isRemoved ?flagged"
    by code_simp+
  from rc f n
  obtain l' where l': "l' \<in> set (items (projr ?c))" "isRemoved l'" "status l' = Pending"
    "menuItemId l' = menuItemId ?cheese" "quantity l' = quantity ?cheese"
    "mset (addons l') = mset (addons ?cheese)"
    "\<forall>l0 \<in> set (items flagged_order). item_id l0 \<noteq> item_id l'"
    by blast
  have "item_id l' \<noteq> Some 103"
    using l'(7) mem(1) by (force simp: cheese_fries_line_def fries_line_def)
  then have a: "list_ex (\<lambda>l'. isRemoved l' \<and> status l' = Pending \<and> menuItemId l' = 8 \<and> quantity l' = 1
                  \<and> mset (addons l') = mset [AddonStr ''Cheese''] \<and> item_id l' \<noteq> Some 103)
     (items (projr ?c))"
    using l'(1-6) unfolding list_ex_iff
    by (intro bexI[of _ l']) (simp_all add: cheese_fries_line_def fries_line_def)
  from rc mem(2,3)
  have "\<forall>l' \<in> set (items (projr ?c)). item_id l' \<noteq> item_id ?flagged"
    by blast
  then have b: "\<not> list_ex (\<lambda>l'. item_id l' = Some 101) (items (projr ?c))"
    unfolding list_ex_iff by (simp add: flag_removed_def burger_line_def)
  have m: "?pending \<in> set (items bug_order)" "\<not> isRemoved ?pending"
    "submitted (line_key ?pending) (resolve_items example_menu [burger_req 1]) \<noteq> []"
    by code_simp+
  from rs m
  obtain l2 where l2: "l2 \<in> set (items (projr ?s))" "item_id l2 = item_id ?pending"
    "status l2 = status ?pending"
    by blast
  have its: "items (projr ?s) = [flag_removed ?pending, burger_line 102 1 Preparing]"
    by code_simp
  have "l2 = flag_removed ?pending"
    using l2 unfolding its by (auto simp: burger_line_def flag_removed_def)
  then have c: "list_ex (\<lambda>l'. item_id l' = Some 101 \<and> status l' = Pending \<and> quantity l' = 1 \<and> isRemoved l')
       (items (projr ?s))"
    using l2(1) unfolding list_ex_iff
    by (intro bexI[of _ l2]) (simp_all add: burger_line_def flag_removed_def)
  from a b c show ?thesis by blast
qed

section \<open>Removal priority under the staff policy\<close>

text \<open>
  For a key that is submitted with a desired quantity below its existing total, case C takes
  the deficit in the status order pending, preparing, ready, served, cancelled.
  \<open>sortedExisting\<close> is a permutation of the existing lines of the key, ordered by status
  priority; the lines of the key after the reconciliation are these lines position by
  position, each one unchanged, reduced in place to a smaller positive quantity, or kept with
  \<open>isRemoved = True\<close>; a line is touched only if every line of strictly lower priority is
  kept as removed; the lines not flagged removed sum to the desired quantity; and the change
  log of the reconciliation holds exactly one event for the key, of type
  \<open>quantity_decreased\<close>: it is the log of the submission without the key with that one
  event put in.
\<close>

lemma staff_case_C_priority:
  assumes "\<forall>l \<in> set oldItems. \<not> isRemoved l"
    and "\<forall>p \<in> set its. 1 \<le> req_quantity (fst p)"
    and "submitted k its \<noteq> []"
    and "desiredQty k its < total_quantity (lines_of_key k oldItems)"
  shows "mset (sortedExisting k oldItems) = mset (map sort_line (lines_of_key k oldItems))
       \<and> sorted (map (\<lambda>i. statusPriority (status i)) (sortedExisting k oldItems))
       \<and> length (staff_lines now oldItems its k) = length (sortedExisting k oldItems)
       \<and> (\<forall>i < length (sortedExisting k oldItems).
             staff_lines now oldItems its k ! i = sortedExisting k oldItems ! i
             \<or> staff_lines now oldItems its k ! i = flag_removed (sortedExisting k oldItems ! i)
             \<or> (\<exists>q'. 0 < q' \<and> q' < quantity (sortedExisting k oldItems ! i) \<and>
                   staff_lines now oldItems its k ! i
                     = (sortedExisting k oldItems ! i)\<lparr>quantity := q'\<rparr>))
       \<and> (\<forall>i j. i < length (sortedExisting k oldItems) \<and> j < length (sortedExisting k oldItems)
                \<and> statusPriority (status (sortedExisting k oldItems ! i))
                     < statusPriority (status (sortedExisting k oldItems ! j))
                \<and> staff_lines now oldItems its k ! j \<noteq> sortedExisting k oldItems ! j
              \<longrightarrow> staff_lines now oldItems its k ! i = flag_removed (sortedExisting k oldItems ! i))
       \<and> active_quantity (staff_lines now oldItems its k) = desiredQty k its
       \<and> (\<exists>e pre post.
              fst (snd (staff_reconcile now oldItems its)) = pre @ [e] @ post
              \<and> fst (snd (staff_reconcile now oldItems (without_key k its))) = pre @ post
              \<and> changeType e = Quantity_decreased
              \<and> oldQuantity e = Some (total_quantity (lines_of_key k oldItems))
              \<and> newQuantity e = Some (desiredQty k its)
              \<and> changedBy e = Staff)"
proof -
  obtain it mi rest where sub: "submitted k its = (it, mi) # rest"
    using assms(3) by (cases "submitted k its") auto
  let ?S = "sortedExisting k oldItems"
  let ?r = "total_quantity (lines_of_key k oldItems) - desiredQty k its"
  let ?e = "staff_decreased_event now (mi_name mi) (total_quantity (lines_of_key k oldItems))
         (desiredQty k its)"
  have res: "staff_key_result now oldItems its k = (remove_from ?r ?S, [?e])"
    using sub assms(4) by (rule staff_key_result_less)
  have post: "staff_lines now oldItems its k = remove_from ?r ?S"
    by (simp add: staff_lines_key_result res)
  have c1: "mset ?S = mset (map sort_line (lines_of_key k oldItems))"
    by (rule mset_sortedExisting)
  have c2: "sorted (map (\<lambda>i. statusPriority (status i)) ?S)"
    by (rule sorted_sortedExisting)
  have c3: "length (staff_lines now oldItems its k) = length ?S"
    by (simp add: post length_remove_from)
  have c4: "\<forall>i < length ?S.
             staff_lines now oldItems its k ! i = ?S ! i
             \<or> staff_lines now oldItems its k ! i = flag_removed (?S ! i)
             \<or> (\<exists>q'. 0 < q' \<and> q' < quantity (?S ! i) \<and>
                   staff_lines now oldItems its k ! i = (?S ! i)\<lparr>quantity := q'\<rparr>)"
    unfolding post using remove_from_pointwise by blast
  have c5: "\<forall>i j. i < length ?S \<and> j < length ?S
                \<and> statusPriority (status (?S ! i)) < statusPriority (status (?S ! j))
                \<and> staff_lines now oldItems its k ! j \<noteq> ?S ! j
              \<longrightarrow> staff_lines now oldItems its k ! i = flag_removed (?S ! i)"
  proof (intro allI impI)
    fix i j
    assume a: "i < length ?S \<and> j < length ?S
                \<and> statusPriority (status (?S ! i)) < statusPriority (status (?S ! j))
                \<and> staff_lines now oldItems its k ! j \<noteq> ?S ! j"
    then have "i < j"
      using sorted_map_less_index[OF c2, of i j] by simp
    then show "staff_lines now oldItems its k ! i = flag_removed (?S ! i)"
      using a unfolding post by (intro remove_from_before[of i j]) simp_all
  qed
  have c6: "active_quantity (staff_lines now oldItems its k) = desiredQty k its"
    by (rule staff_quantities(1)[OF assms(1,2,3)])
  obtain pre post' where
    l1: "fst (snd (staff_reconcile now oldItems its)) = pre @ [?e] @ post'"
    and l2: "fst (snd (staff_reconcile now oldItems (without_key k its))) = pre @ post'"
    using staff_log_split[OF assms(3), of now oldItems] unfolding res by auto
  have ev: "changeType ?e = Quantity_decreased
            \<and> oldQuantity ?e = Some (total_quantity (lines_of_key k oldItems))
            \<and> newQuantity ?e = Some (desiredQty k its) \<and> changedBy ?e = Staff"
    by (simp add: staff_decreased_event_def)
  have c7: "\<exists>e pre post.
              fst (snd (staff_reconcile now oldItems its)) = pre @ [e] @ post
              \<and> fst (snd (staff_reconcile now oldItems (without_key k its))) = pre @ post
              \<and> changeType e = Quantity_decreased
              \<and> oldQuantity e = Some (total_quantity (lines_of_key k oldItems))
              \<and> newQuantity e = Some (desiredQty k its)
              \<and> changedBy e = Staff"
    using l1 l2 ev by blast
  from c1 c2 c3 c4 c5 c6 c7 show ?thesis by blast
qed

text \<open>
  Claim C3: whenever a staff reconciliation reduces the quantity of a key below its existing
  total, the deficit is taken from the existing lines of the key in status order, each
  processed line is reduced in place or kept with \<open>isRemoved = True\<close>, and exactly one
  \<open>quantity_decreased\<close> event is logged for the key. A key that the staff submission
  leaves out is reduced to zero, and for it the staff branch does none of this: with a burger
  line of quantity 2 and a fries line, a staff submission of the fries alone has desired
  quantity 0 for the burger key against an existing total of 2, the new item list holds the
  fries line only, and the change log is empty. The customer branch, on the same input, keeps
  a burger line flagged \<open>isRemoved\<close> and logs \<open>item_removed\<close>.
\<close>

theorem staff_removal_absent_key:
  "desiredQty burger_key [(fries_req 1, fries)] = 0
   \<and> total_quantity (lines_of_key burger_key
         [burger_line 101 2 Preparing, fries_line 102 1 Pending]) = 2
   \<and> fst (staff_reconcile 0 [burger_line 101 2 Preparing, fries_line 102 1 Pending]
            [(fries_req 1, fries)]) = [fries_line 102 1 Pending]
   \<and> fst (snd (staff_reconcile 0 [burger_line 101 2 Preparing, fries_line 102 1 Pending]
                 [(fries_req 1, fries)])) = []
   \<and> fst (customer_reconcile 0 [burger_line 101 2 Preparing, fries_line 102 1 Pending]
            [(fries_req 1, fries)])
        = [fries_line 102 1 Pending,
           (burger_line 101 2 Pending)\<lparr>item_id := None, isRemoved := True\<rparr>]
   \<and> map changeType (fst (snd (customer_reconcile 0
          [burger_line 101 2 Preparing, fries_line 102 1 Pending] [(fries_req 1, fries)])))
        = [Item_removed]"
  by code_simp

section \<open>Quantity increase under the staff policy\<close>

text \<open>
  Claim C4: when the desired quantity of a submitted key exceeds its existing total, the lines
  of the key after the staff reconciliation are the existing lines of the key, with the same
  id, quantity and status (only their addon lists have been sorted), followed by one new line
  for the surplus, without id yet, with \<open>status = Pending\<close>, \<open>isNew = True\<close> and
  \<open>isRemoved = False\<close>; and the change log of the reconciliation holds exactly one event
  for the key, \<open>item_added\<close> if the existing total is zero and \<open>quantity_increased\<close>
  otherwise: it is the log of the submission without the key with that one event put in.
\<close>

theorem staff_quantity_increase:
  assumes "submitted k its \<noteq> []"
    and "total_quantity (lines_of_key k oldItems) < desiredQty k its"
  shows "(\<exists>new. staff_lines now oldItems its k = map sort_line (lines_of_key k oldItems) @ [new]
            \<and> item_id new = None \<and> status new = Pending \<and> isNew new \<and> \<not> isRemoved new
            \<and> quantity new = desiredQty k its - total_quantity (lines_of_key k oldItems))
       \<and> map item_id (butlast (staff_lines now oldItems its k)) = map item_id (lines_of_key k oldItems)
       \<and> map quantity (butlast (staff_lines now oldItems its k)) = map quantity (lines_of_key k oldItems)
       \<and> map status (butlast (staff_lines now oldItems its k)) = map status (lines_of_key k oldItems)
       \<and> (\<exists>e pre post.
              fst (snd (staff_reconcile now oldItems its)) = pre @ [e] @ post
              \<and> fst (snd (staff_reconcile now oldItems (without_key k its))) = pre @ post
              \<and> changeType e = (if total_quantity (lines_of_key k oldItems) = 0 then Item_added
                                 else Quantity_increased)
              \<and> newQuantity e = Some (desiredQty k its)
              \<and> changedBy e = Staff)"
proof -
  obtain it mi rest where sub: "submitted k its = (it, mi) # rest"
    using assms(1) by (cases "submitted k its") auto
  let ?E = "total_quantity (lines_of_key k oldItems)"
  let ?new = "new_pending_item mi (sort_req it) (desiredQty k its - ?E)"
  let ?e = "if ?E = 0 then added_event now Staff (mi_name mi) (desiredQty k its)
            else staff_increased_event now (mi_name mi) ?E (desiredQty k its)"
  have res: "staff_key_result now oldItems its k =
     (map sort_line (lines_of_key k oldItems) @ [?new], [?e])"
    using sub assms(2) by (rule staff_key_result_more)
  have post: "staff_lines now oldItems its k = map sort_line (lines_of_key k oldItems) @ [?new]"
    by (simp add: staff_lines_key_result res)
  have a: "\<exists>new. staff_lines now oldItems its k = map sort_line (lines_of_key k oldItems) @ [new]
            \<and> item_id new = None \<and> status new = Pending \<and> isNew new \<and> \<not> isRemoved new
            \<and> quantity new = desiredQty k its - ?E"
    by (rule exI[of _ ?new]) (simp add: post new_pending_item_def)
  have b: "map item_id (butlast (staff_lines now oldItems its k)) = map item_id (lines_of_key k oldItems)"
    "map quantity (butlast (staff_lines now oldItems its k)) = map quantity (lines_of_key k oldItems)"
    "map status (butlast (staff_lines now oldItems its k)) = map status (lines_of_key k oldItems)"
    by (simp_all add: post sort_line_def comp_def)
  obtain pre post' where
    l1: "fst (snd (staff_reconcile now oldItems its)) = pre @ [?e] @ post'"
    and l2: "fst (snd (staff_reconcile now oldItems (without_key k its))) = pre @ post'"
    using staff_log_split[OF assms(1), of now oldItems] unfolding res by auto
  have ev: "changeType ?e = (if ?E = 0 then Item_added else Quantity_increased)
            \<and> newQuantity ?e = Some (desiredQty k its) \<and> changedBy ?e = Staff"
    by (simp add: added_event_def staff_increased_event_def)
  have c: "\<exists>e pre post.
              fst (snd (staff_reconcile now oldItems its)) = pre @ [e] @ post
              \<and> fst (snd (staff_reconcile now oldItems (without_key k its))) = pre @ post
              \<and> changeType e = (if ?E = 0 then Item_added else Quantity_increased)
              \<and> newQuantity e = Some (desiredQty k its)
              \<and> changedBy e = Staff"
    using l1 l2 ev by blast
  from a b c show ?thesis by blast
qed

theorem staff_quantity_increase_witness:
  "staff_lines 0 [burger_line 101 3 Preparing] [(burger_req 5, burger)] burger_key
     = [burger_line 101 3 Preparing,
        (burger_line 101 2 Pending)\<lparr>item_id := None, isNew := True\<rparr>]
   \<and> map changeType (fst (snd (staff_reconcile 0 [burger_line 101 3 Preparing]
                                  [(burger_req 5, burger)]))) = [Quantity_increased]"
proof -
  let ?old = "[burger_line 101 3 Preparing]"
  let ?its = "[(burger_req 5, burger)]"
  have h1: "submitted burger_key ?its \<noteq> []"
    by code_simp
  have h2: "total_quantity (lines_of_key burger_key ?old) < desiredQty burger_key ?its"
    by code_simp
  have e: "total_quantity (lines_of_key burger_key ?old) \<noteq> 0"
    by code_simp
  have lines: "staff_lines 0 ?old ?its burger_key
     = [burger_line 101 3 Preparing,
        (burger_line 101 2 Pending)\<lparr>item_id := None, isNew := True\<rparr>]"
    by code_simp
  have rest: "fst (snd (staff_reconcile 0 ?old (without_key burger_key ?its))) = []"
    by code_simp
  from staff_quantity_increase[OF h1 h2, of 0]
  obtain ev pre post where
    "fst (snd (staff_reconcile 0 ?old ?its)) = pre @ [ev] @ post"
    "fst (snd (staff_reconcile 0 ?old (without_key burger_key ?its))) = pre @ post"
    "changeType ev = (if total_quantity (lines_of_key burger_key ?old) = 0
                      then Item_added else Quantity_increased)"
    by blast
  then have "map changeType (fst (snd (staff_reconcile 0 ?old ?its))) = [Quantity_increased]"
    using e rest by simp
  then show ?thesis
    using lines by simp
qed

section \<open>Pricing\<close>

text \<open>
  Claim C5: the order total is the sum of the prices of the lines not flagged
  \<open>isRemoved\<close>, rounded once to two decimals, for order creation and for both
  reconciliation policies. The staff branch pushes the lines it removes, flagged
  \<open>isRemoved\<close>, into \<open>newOrderItems\<close> and then sums over all of
  \<open>newOrderItems\<close>: with two burger lines of quantity 1 at price 10 and a staff submission
  of one burger, the pending line is kept as removed and the saved total is 20, while the
  lines not flagged removed sum to 10.
\<close>

theorem staff_total_counts_removed_line:
  "(case update_order 5 900 True example_menu [burger_req 1] None None bug_order of
      Inl e \<Rightarrow> False
    | Inr order' \<Rightarrow>
        items order' = [flag_removed (burger_line 101 1 Pending), burger_line 102 1 Preparing]
        \<and> totalPrice order' = 20
        \<and> round2 (active_total (items order')) = 10)"
  by code_simp

section \<open>Reopening rule\<close>

text \<open>
  Claim C6: for every update, under either policy, whose change log contains an
  \<open>item_added\<close> or \<open>quantity_increased\<close> event, if the status of the order at the
  time of the edit is served, ready or preparing, then the saved order has status pending and
  \<open>hasUnseenChanges = True\<close>. The change log of the edit is what the route appends to
  \<open>updateHistory\<close>.
\<close>

theorem reopening_rule:
  assumes "db orderId = Some order"
    and "updateOrder now fresh isStaffEdit menuItemMap its newName newInstructions orderId db
           = (Inr order', db')"
    and "hasNewWork (current_history isStaffEdit now menuItemMap its order)"
    and "order_status order \<in> {Served, Ready, Preparing}"
  shows "order_status order' = Pending \<and> hasUnseenChanges order'
       \<and> updateHistory order' = updateHistory order @ current_history isStaffEdit now menuItemMap its order
       \<and> db' = db(orderId \<mapsto> order')"
proof -
  have upd: "update_order now fresh isStaffEdit menuItemMap its newName newInstructions order = Inr order'"
    and db': "db' = db(orderId \<mapsto> order')"
    using assms(1,2) by (auto simp: updateOrder_def split: if_splits sum.splits)
  have o': "order' = updated_order now fresh isStaffEdit menuItemMap its newName newInstructions order"
    using upd unfolding update_order_eq by (simp split: if_splits)
  let ?h = "current_history isStaffEdit now menuItemMap its order"
  let ?o1 = "order\<lparr>originalItems := (if isUpdated order then originalItems order
                                    else map snapshot_item (items order)),
               items := fst (reconciled isStaffEdit now menuItemMap its order),
               totalPrice := round2 (snd (snd (reconciled isStaffEdit now menuItemMap its order))),
               customerName := trim_or newName (customerName order),
               order_specialInstructions := trim_or newInstructions (order_specialInstructions order),
               isUpdated := True, updateCount := updateCount order + 1\<rparr>"
  have st: "order_status ?o1 \<in> {Served, Ready, Preparing}"
    using assms(4) by simp
  have "order' = (apply_history ?h ?o1)\<lparr>items := assign_ids fresh (fst (reconciled isStaffEdit now menuItemMap its order))\<rparr>"
    unfolding o' updated_order_def current_history_def ..
  then have "order_status order' = order_status (apply_history ?h ?o1)"
    and "hasUnseenChanges order' = hasUnseenChanges (apply_history ?h ?o1)"
    and "updateHistory order' = updateHistory (apply_history ?h ?o1)"
    by simp_all
  then show ?thesis
    using apply_history_reopen[OF assms(3) st] db' by simp
qed

theorem reopening_rule_witness:
  "order_status (the (snd (updateOrder 5 900 True example_menu [burger_req 1, fries_req 1] None None
                              501 served_db) 501)) = Pending
   \<and> hasUnseenChanges (the (snd (updateOrder 5 900 True example_menu [burger_req 1, fries_req 1]
                                    None None 501 served_db) 501))"
proof -
  let ?o = "example_order [burger_line 101 1 Served] Served"
  let ?r = "updateOrder 5 900 True example_menu [burger_req 1, fries_req 1] None None 501 served_db"
  have h1: "served_db 501 = Some ?o"
    by (simp add: served_db_def)
  have ok: "\<not> isl (fst ?r)"
    by code_simp
  then have h2: "?r = (Inr (projr (fst ?r)), snd ?r)"
    by (cases "fst ?r") (simp_all add: prod_eq_iff)
  have h3: "hasNewWork (current_history True 5 example_menu [burger_req 1, fries_req 1] ?o)"
    by code_simp
  have h4: "order_status ?o \<in> {Served, Ready, Preparing}"
    by (simp add: example_order_def)
  from reopening_rule[OF h1 h2 h3 h4]
  have "order_status (projr (fst ?r)) = Pending \<and> hasUnseenChanges (projr (fst ?r))
        \<and> snd ?r = served_db(501 \<mapsto> projr (fst ?r))"
    by simp
  then show ?thesis
    by (metis fun_upd_same option.sel)
qed

section \<open>Idempotent ticket generation\<close>

text \<open>
  Claim C7 states that a second call of generateTicket with no order change in between is a
  no-op reporting nothing to print rather than an error. The route answers it with
  \<open>res.status(400).json({success: false, message: "No new items to print", noNewItems: true})\<close>:
  nothing is appended, and the response is a rejection with HTTP status 400.
\<close>

theorem ticket_generation_counterexample:
  "fst (generateTicket 2 501 (snd (generateTicket 1 501 example_db))) = Inl NoNewItems
   \<and> http_status NoNewItems = 400"
  by code_simp

text \<open>
  Claim C7 as amended: for every saved order, the remaining quantity of a line not flagged
  \<open>isRemoved\<close> is its quantity minus the quantities printed for its id across all prior
  tickets. If some line has a positive remaining quantity, generateTicket appends a ticket
  with \<open>kotNumber = priorTicketCount + 1\<close> that holds exactly these lines, in order, at
  their remaining quantities, and a second call on the resulting store appends nothing,
  leaves the store unchanged, and is answered with the rejection \<open>NoNewItems\<close> (status
  400). If no line has a positive remaining quantity the first call is this rejection.
\<close>

theorem ticket_generation:
  assumes "db orderId = Some order" and "all_saved (items order)"
  shows "(list_ex (printable (kots order)) (items order) \<longrightarrow>
           (\<exists>newKot.
              generateTicket now orderId db
                = (Inr newKot, db(orderId \<mapsto> order\<lparr>kots := kots order @ [newKot]\<rparr>))
              \<and> kotNumber newKot = length (kots order) + 1
              \<and> map kot_quantity (kot_items newKot)
                   = map (remainingQty (kots order)) (filter (printable (kots order)) (items order))
              \<and> map (\<lambda>kotItem. Some (itemId kotItem)) (kot_items newKot)
                   = map item_id (filter (printable (kots order)) (items order))
              \<and> map kot_name (kot_items newKot)
                   = map name (filter (printable (kots order)) (items order))
              \<and> generateTicket now' orderId (db(orderId \<mapsto> order\<lparr>kots := kots order @ [newKot]\<rparr>))
                   = (Inl NoNewItems, db(orderId \<mapsto> order\<lparr>kots := kots order @ [newKot]\<rparr>))))
       \<and> (\<not> list_ex (printable (kots order)) (items order) \<longrightarrow>
             generateTicket now orderId db = (Inl NoNewItems, db))
       \<and> http_status NoNewItems = 400"
proof -
  let ?k = "\<lparr>kotNumber = length (kots order) + 1,
             kot_items = expected_items (kots order) (items order),
             printedAt = now, printedBy = ''Staff''\<rparr>"
  let ?db' = "db(orderId \<mapsto> order\<lparr>kots := kots order @ [?k]\<rparr>)"
  have none: "generateTicket now orderId db = (Inl NoNewItems, db)"
    if "\<not> list_ex (printable (kots order)) (items order)"
    using that assms by (simp add: generateTicket_def print_kot_saved)
  have some: "\<exists>newKot.
              generateTicket now orderId db
                = (Inr newKot, db(orderId \<mapsto> order\<lparr>kots := kots order @ [newKot]\<rparr>))
              \<and> kotNumber newKot = length (kots order) + 1
              \<and> map kot_quantity (kot_items newKot)
                   = map (remainingQty (kots order)) (filter (printable (kots order)) (items order))
              \<and> map (\<lambda>kotItem. Some (itemId kotItem)) (kot_items newKot)
                   = map item_id (filter (printable (kots order)) (items order))
              \<and> map kot_name (kot_items newKot)
                   = map name (filter (printable (kots order)) (items order))
              \<and> generateTicket now' orderId (db(orderId \<mapsto> order\<lparr>kots := kots order @ [newKot]\<rparr>))
                   = (Inl NoNewItems, db(orderId \<mapsto> order\<lparr>kots := kots order @ [newKot]\<rparr>))"
    if p: "list_ex (printable (kots order)) (items order)"
  proof -
    have first: "print_kot now order = Inr (?k, order\<lparr>kots := kots order @ [?k]\<rparr>)"
      using p by (simp add: print_kot_saved[OF assms(2)])
    have second: "print_kot now' (order\<lparr>kots := kots order @ [?k]\<rparr>) = Inl NoNewItems"
      using first by (rule print_kot_twice)
    have g1: "generateTicket now orderId db = (Inr ?k, ?db')"
      using assms(1) first by (simp add: generateTicket_def)
    have g2: "generateTicket now' orderId ?db' = (Inl NoNewItems, ?db')"
      using second by (simp add: generateTicket_def)
    show ?thesis
      using g1 g2 expected_items_quantities[OF assms(2), of "kots order"]
      by (intro exI[of _ ?k]) simp
  qed
  show ?thesis
    using none some by simp
qed

theorem ticket_generation_witness:
  "(\<exists>newKot.
      generateTicket 1 501 example_db
        = (Inr newKot,
           example_db(501 \<mapsto>
             example_order [burger_line 101 2 Pending, fries_line 102 1 Pending] Pending
               \<lparr>kots := [newKot]\<rparr>))
      \<and> kotNumber newKot = 1
      \<and> map kot_quantity (kot_items newKot) = [2, 1])"
proof -
  let ?o = "example_order [burger_line 101 2 Pending, fries_line 102 1 Pending] Pending"
  have h1: "example_db 501 = Some ?o"
    by (simp add: example_db_def)
  have h2: "all_saved (items ?o)"
    by code_simp
  have p: "list_ex (printable (kots ?o)) (items ?o)"
    by code_simp
  have k: "kots ?o = []"
    by (simp add: example_order_def)
  have q: "map (remainingQty (kots ?o)) (filter (printable (kots ?o)) (items ?o)) = [2, 1]"
    by code_simp
  from ticket_generation[where db = example_db and orderId = 501 and order = ?o
      and now = 1 and now' = 2, OF h1 h2] p
  obtain newKot where
    "generateTicket 1 501 example_db = (Inr newKot, example_db(501 \<mapsto> ?o\<lparr>kots := kots ?o @ [newKot]\<rparr>))"
    "kotNumber newKot = length (kots ?o) + 1"
    "map kot_quantity (kot_items newKot)
       = map (remainingQty (kots ?o)) (filter (printable (kots ?o)) (items ?o))"
    by blast
  then show ?thesis
    unfolding q unfolding k by (intro exI[of _ newKot]) simp
qed

section \<open>Terminal states\<close>

text \<open>
  Claim C8 states that on an order whose status is paid or cancelled every status-transition
  attempt, setOrderStatus included, is rejected, and that the transition to paid is permitted
  only from served. PATCH /:orderId/status checks the requested status against the six valid
  values and nothing else: on a paid order it sets the status it is asked to set.
\<close>

theorem terminal_state_counterexample:
  "map_sum id order_status (fst (setOrderStatus Pending [] 501 paid_db)) = Inr Pending
   \<and> map_option order_status (snd (setOrderStatus Pending [] 501 paid_db) 501) = Some Pending
   \<and> map_option order_status (paid_db 501) = Some Paid"
  by code_simp

text \<open>
  Claim C8 as amended: for every stored order whose status is paid or cancelled, updateOrder
  fails and leaves the store unchanged, with the terminal-state rejection when the submitted
  list is not empty and with the empty-list rejection otherwise; recordPayment and cancelOrder
  on such an order are rejected and leave the store unchanged. recordPayment sets paid only
  from served: from any other status it is rejected. setOrderStatus without batch selection
  applies no transition guard: on any stored order it sets the requested status and replaces
  \<open>batchStatus\<close> by the single entry \<open>all\<close>.
\<close>

theorem terminal_state_rejection:
  assumes "db orderId = Some order"
  shows "(order_status order \<in> {Paid, Cancelled} \<longrightarrow>
            (its \<noteq> [] \<longrightarrow>
               updateOrder now fresh isStaffEdit menuItemMap its newName newInstructions orderId db
                 = (Inl (TerminalState (order_status order)), db))
          \<and> (its = [] \<longrightarrow>
               updateOrder now fresh isStaffEdit menuItemMap its newName newInstructions orderId db
                 = (Inl EmptyItems, db))
          \<and> recordPayment now payMethod orderId db = (Inl (NotServed (order_status order)), db)
          \<and> cancelOrder orderId db = (Inl (NotPending (order_status order)), db))
       \<and> (order_status order \<noteq> Served \<longrightarrow>
             recordPayment now payMethod orderId db = (Inl (NotServed (order_status order)), db))
       \<and> (order_status order = Served \<longrightarrow>
             recordPayment now payMethod orderId db
               = (Inr (order\<lparr>order_status := Paid, paymentMethod := Some payMethod,
                              paymentCompletedAt := Some now\<rparr>),
                  db(orderId \<mapsto> order\<lparr>order_status := Paid, paymentMethod := Some payMethod,
                                       paymentCompletedAt := Some now\<rparr>)))
       \<and> setOrderStatus st [] orderId db
             = (Inr (order\<lparr>order_status := st, batchStatus := Some [(''all'', st)]\<rparr>),
                db(orderId \<mapsto> order\<lparr>order_status := st, batchStatus := Some [(''all'', st)]\<rparr>))"
proof -
  have u1: "updateOrder now fresh isStaffEdit menuItemMap its newName newInstructions orderId db
              = (Inl (TerminalState (order_status order)), db)"
    if "order_status order \<in> {Paid, Cancelled}" "its \<noteq> []"
    using that assms by (simp add: updateOrder_def update_order_eq)
  have u2: "updateOrder now fresh isStaffEdit menuItemMap its newName newInstructions orderId db
              = (Inl EmptyItems, db)" if "its = []"
    using that by (simp add: updateOrder_def)
  have p1: "recordPayment now payMethod orderId db = (Inl (NotServed (order_status order)), db)"
    if "order_status order \<noteq> Served"
    using that assms by (simp add: recordPayment_def)
  have p2: "recordPayment now payMethod orderId db
               = (Inr (order\<lparr>order_status := Paid, paymentMethod := Some payMethod,
                              paymentCompletedAt := Some now\<rparr>),
                  db(orderId \<mapsto> order\<lparr>order_status := Paid, paymentMethod := Some payMethod,
                                       paymentCompletedAt := Some now\<rparr>))"
    if "order_status order = Served"
    using that assms by (simp add: recordPayment_def Let_def)
  have c: "cancelOrder orderId db = (Inl (NotPending (order_status order)), db)"
    if "order_status order \<in> {Paid, Cancelled}"
    using that assms by (auto simp: cancelOrder_def)
  have s: "setOrderStatus st [] orderId db
             = (Inr (order\<lparr>order_status := st, batchStatus := Some [(''all'', st)]\<rparr>),
                db(orderId \<mapsto> order\<lparr>order_status := st, batchStatus := Some [(''all'', st)]\<rparr>))"
    using assms by (simp add: setOrderStatus_def set_order_status_def Let_def)
  have p3: "recordPayment now payMethod orderId db = (Inl (NotServed (order_status order)), db)"
    if "order_status order \<in> {Paid, Cancelled}"
    using that p1 by auto
  show ?thesis
    using u1 u2 p1 p2 p3 c s by blast
qed

theorem terminal_state_rejection_witness:
  "updateOrder 5 900 True example_menu [burger_req 2] None None 501 paid_db
     = (Inl (TerminalState Paid), paid_db)
   \<and> recordPayment 5 Cash 501 paid_db = (Inl (NotServed Paid), paid_db)
   \<and> fst (recordPayment 5 Cash 501 served_db)
        = Inr ((example_order [burger_line 101 1 Served] Served)
                 \<lparr>order_status := Paid, paymentMethod := Some Cash, paymentCompletedAt := Some 5\<rparr>)"
proof -
  let ?p = "example_order [burger_line 101 1 Served] Paid"
  let ?s = "example_order [burger_line 101 1 Served] Served"
  have h1: "paid_db 501 = Some ?p" by (simp add: paid_db_def)
  have h2: "served_db 501 = Some ?s" by (simp add: served_db_def)
  have st: "order_status ?p = Paid" "order_status ?s = Served"
    by (simp_all add: example_order_def)
  have ne: "[burger_req 2] \<noteq> []" by simp
  note a = terminal_state_rejection[where db = paid_db and orderId = 501 and order = ?p
      and its = "[burger_req 2]" and now = 5 and fresh = 900 and isStaffEdit = True
      and menuItemMap = example_menu and newName = None and newInstructions = None and
      payMethod = Cash, OF h1]
  note b = terminal_state_rejection[where db = served_db and orderId = 501 and order = ?s and
      now = 5 and payMethod = Cash, OF h2]
  from a st(1) ne
  have "updateOrder 5 900 True example_menu [burger_req 2] None None 501 paid_db
          = (Inl (TerminalState Paid), paid_db)
        \<and> recordPayment 5 Cash 501 paid_db = (Inl (NotServed Paid), paid_db)"
    by simp
  moreover from b st(2)
  have "fst (recordPayment 5 Cash 501 served_db)
        = Inr (?s\<lparr>order_status := Paid, paymentMethod := Some Cash, paymentCompletedAt := Some 5\<rparr>)"
    by simp
  ultimately show ?thesis by simp
qed

section \<open>Identity preservation under the customer policy\<close>

text \<open>
  Claim C9 states that under the customer policy \<open>isNew\<close> is set only for lines whose key
  did not exist before. The change-log loop also sets \<open>newItem.isNew = true\<close> when the key
  existed and the quantity increased: an existing line of quantity 3 resubmitted with
  quantity 5 comes out with \<open>isNew = True\<close>.
\<close>

theorem customer_identity_counterexample:
  "customer_lines 0 [burger_line 101 3 Preparing] [(burger_req 5, burger)] burger_key
     = [(burger_line 101 5 Preparing)\<lparr>isNew := True\<rparr>]
   \<and> lines_of_key burger_key [burger_line 101 3 Preparing] = [burger_line 101 3 Preparing]"
  by code_simp

text \<open>
  Claim C9 as amended: for every customer reconciliation and every submitted key, the item
  list holds exactly one line of the key, not flagged \<open>isRemoved\<close>, with the summed
  submitted quantity. If the key has existing lines, the line keeps the id and the status of
  the existing line of the key (of the last one when several share the key); otherwise it has
  no id yet. \<open>isNew\<close> is set exactly when the key has no existing line or the quantity
  exceeds that of the (first) existing line of the key.
\<close>

theorem customer_identity_preservation:
  assumes "submitted k its \<noteq> []"
  shows "\<exists>c. customer_lines now oldItems its k = [c]
           \<and> quantity c = desiredQty k its \<and> \<not> isRemoved c
           \<and> (lines_of_key k oldItems \<noteq> [] \<longrightarrow>
                 item_id c = item_id (last (lines_of_key k oldItems))
                 \<and> status c = status (last (lines_of_key k oldItems)))
           \<and> (lines_of_key k oldItems = [] \<longrightarrow> item_id c = None)
           \<and> (isNew c \<longleftrightarrow>
                 (case lines_of_key k oldItems of
                    [] \<Rightarrow> True
                  | first # _ \<Rightarrow> quantity first < desiredQty k its))"
proof -
  obtain it mi rest where sub: "submitted k its = (it, mi) # rest"
    using assms by (cases "submitted k its") auto
  have key: "req_key it = k" using sub by (rule submitted_head)
  let ?e = "map_of (index_existing oldItems []) k"
  let ?base = "(consolidated_item mi (sort_req it) ?e)\<lparr>quantity := desiredQty k its\<rparr>"
  let ?c = "fst (customer_change now (map sort_line oldItems) ?base)"
  have lines: "customer_lines now oldItems its k = [?c]"
    using sub by (rule customer_lines_submitted)
  have e: "?e = (if lines_of_key k oldItems = [] then None
                 else Some (sort_line (last (lines_of_key k oldItems))))"
    by (simp add: map_of_index_existing)
  have k0: "line_key ?base = k"
    using key by (simp add: consolidated_item_def line_key_def req_key_def sort_req_def sort_addons_idem)
  have q: "quantity ?c = desiredQty k its" and r: "\<not> isRemoved ?c"
    by (simp_all add: customer_change_fields consolidated_item_def)
  have idst: "lines_of_key k oldItems \<noteq> [] \<longrightarrow>
                 item_id ?c = item_id (last (lines_of_key k oldItems))
                 \<and> status ?c = status (last (lines_of_key k oldItems))"
    by (simp add: customer_change_fields e consolidated_item_def sort_line_def)
  have idn: "lines_of_key k oldItems = [] \<longrightarrow> item_id ?c = None"
    by (simp add: customer_change_fields e consolidated_item_def)
  have "\<not> isNew ?base" by (simp add: consolidated_item_def)
  then have "isNew ?c \<longleftrightarrow> (case lines_of_key (line_key ?base) oldItems of
                  [] \<Rightarrow> True
                | first # _ \<Rightarrow> quantity first < quantity ?base)"
    by (rule customer_change_isNew)
  then have new: "isNew ?c \<longleftrightarrow> (case lines_of_key k oldItems of
                    [] \<Rightarrow> True
                  | first # _ \<Rightarrow> quantity first < desiredQty k its)"
    unfolding k0 by (simp split: list.splits)
  show ?thesis
    using lines q r idst idn new by blast
qed

theorem customer_identity_preservation_witness:
  "map item_id (customer_lines 0 [burger_line 101 3 Preparing] [(burger_req 2, burger)] burger_key)
     = [Some 101]
   \<and> map status (customer_lines 0 [burger_line 101 3 Preparing] [(burger_req 2, burger)] burger_key)
     = [Preparing]
   \<and> map isNew (customer_lines 0 [burger_line 101 3 Preparing] [(burger_req 2, burger)] burger_key)
     = [False]"
proof -
  let ?old = "[burger_line 101 3 Preparing]"
  let ?its = "[(burger_req 2, burger)]"
  have h: "submitted burger_key ?its \<noteq> []"
    by code_simp
  have l: "lines_of_key burger_key ?old = [burger_line 101 3 Preparing]"
    by code_simp
  have d: "desiredQty burger_key ?its = 2"
    by code_simp
  from customer_identity_preservation[OF h, of 0 ?old]
  obtain c where c: "customer_lines 0 ?old ?its burger_key = [c]"
    and i: "lines_of_key burger_key ?old \<noteq> [] \<longrightarrow>
                 item_id c = item_id (last (lines_of_key burger_key ?old))
                 \<and> status c = status (last (lines_of_key burger_key ?old))"
    and n: "isNew c \<longleftrightarrow>
                 (case lines_of_key burger_key ?old of
                    [] \<Rightarrow> True
                  | first # _ \<Rightarrow> quantity first < desiredQty burger_key ?its)"
    by blast
  show ?thesis
    using i n unfolding c l d by (simp add: burger_line_def)
qed

section \<open>Frame of ticket generation\<close>

text \<open>
  Claim C10: when generateTicket prints a ticket, the only change written to the store is the
  ticket appended to the \<open>kots\<close> of the order: its items (hence the quantity, status,
  \<open>isNew\<close> and \<open>isRemoved\<close> of every line), its status, \<open>totalPrice\<close>,
  \<open>updateHistory\<close>, \<open>batchStatus\<close> and \<open>updateCount\<close> are unchanged, and so is
  every other order.
\<close>

theorem ticket_frame:
  assumes "generateTicket now orderId db = (Inr newKot, db')"
  shows "\<exists>order order'.
           db orderId = Some order \<and> db' = db(orderId \<mapsto> order')
           \<and> order' = order\<lparr>kots := kots order @ [newKot]\<rparr>
           \<and> items order' = items order \<and> order_status order' = order_status order
           \<and> totalPrice order' = totalPrice order \<and> updateHistory order' = updateHistory order
           \<and> batchStatus order' = batchStatus order \<and> updateCount order' = updateCount order
           \<and> isUpdated order' = isUpdated order \<and> hasUnseenChanges order' = hasUnseenChanges order"
proof -
  obtain order where o: "db orderId = Some order"
    using assms by (cases "db orderId") (auto simp: generateTicket_def)
  obtain order' where p: "print_kot now order = Inr (newKot, order')" and d: "db' = db(orderId \<mapsto> order')"
    using assms o by (auto simp: generateTicket_def split: sum.splits)
  have "order' = order\<lparr>kots := kots order @ [newKot]\<rparr>"
    using p by (auto simp: print_kot_def Let_def split: sum.splits if_splits)
  then show ?thesis
    using o d by simp
qed

theorem ticket_frame_witness:
  "items (the (snd (generateTicket 1 501 example_db) 501))
     = [burger_line 101 2 Pending, fries_line 102 1 Pending]
   \<and> order_status (the (snd (generateTicket 1 501 example_db) 501)) = Pending
   \<and> length (kots (the (snd (generateTicket 1 501 example_db) 501))) = 1"
proof -
  let ?k = "\<lparr>kotNumber = 1,
             kot_items = [printed_item 101 (burger_line 101 2 Pending) 2,
                          printed_item 102 (fries_line 102 1 Pending) 1],
             printedAt = 1, printedBy = ''Staff''\<rparr>"
  have "fst (generateTicket 1 501 example_db) = Inr ?k"
    by code_simp
  then have g: "generateTicket 1 501 example_db = (Inr ?k, snd (generateTicket 1 501 example_db))"
    by (simp add: prod_eq_iff)
  have o: "example_db 501
             = Some (example_order [burger_line 101 2 Pending, fries_line 102 1 Pending] Pending)"
    by (simp add: example_db_def)
  from ticket_frame[OF g] o show ?thesis
    by (auto simp: example_order_def)
qed

end
